theory Spec2Isabelle
  imports Main "HOL-Library.Sublist" "HOL-Library.Multiset"
begin

section \<open>Configuration (src/config.ts)\<close>

text \<open>
  \<open>API_CONFIG\<close> is a constant object built once from the environment. Every numeric
  field is \<open>parseInt(env) || DEFAULT\<close>, an integer that may be negative but is never
  read again from the environment, so the model takes the object as a parameter.
  Only the fields that the modelled functions read are kept; the nesting
  (\<open>RETRY_CONFIG\<close>, \<open>CACHE_CONFIG\<close>, \<open>SECURITY.RATE_LIMIT\<close>) is flattened.
\<close>

record api_config =
  TIMEOUT_MS :: int
  MAX_RETRIES :: int
  RETRY_DELAY_MS :: int
  ENABLED :: bool
  DURATION_MS :: int
  MAX_REQUESTS :: int
  WINDOW_MS :: int

text \<open>The object obtained when no environment variable is set.\<close>

definition DEFAULT_CONFIG :: api_config where
  "DEFAULT_CONFIG =
     \<lparr>TIMEOUT_MS = 30000, MAX_RETRIES = 3, RETRY_DELAY_MS = 1000, ENABLED = True,
      DURATION_MS = 300000, MAX_REQUESTS = 100, WINDOW_MS = 900000\<rparr>"

section \<open>Rate limiter (src/config.ts, checkRateLimit)\<close>

text \<open>
  \<open>requestCounts\<close> is a module-level \<open>Map<string, number[]>\<close>, initially empty.
  The model passes it explicitly and returns the updated map. \<open>Date.now()\<close> is the
  parameter \<open>now\<close> (integer milliseconds).
\<close>

type_synonym request_counts = "string \<rightharpoonup> int list"

text \<open>\<open>requestCounts.get(clientId) || []\<close>: an absent entry reads as the empty array.\<close>

definition timestampsOf :: "request_counts \<Rightarrow> string \<Rightarrow> int list" where
  "timestampsOf requestCounts clientId =
     (case requestCounts clientId of None \<Rightarrow> [] | Some ts \<Rightarrow> ts)"

definition checkRateLimit ::
  "api_config \<Rightarrow> int \<Rightarrow> string \<Rightarrow> request_counts \<Rightarrow> bool \<times> request_counts" where
  "checkRateLimit cfg now clientId requestCounts =
     (let windowMs = WINDOW_MS cfg;
          maxRequests = MAX_REQUESTS cfg;
          timestamps = timestampsOf requestCounts clientId;
          timestamps = filter (\<lambda>timestamp. now - timestamp < windowMs) timestamps
      in if int (length timestamps) \<ge> maxRequests then (False, requestCounts)
         else (True, requestCounts(clientId \<mapsto> timestamps @ [now])))"

text \<open>
  A sequence of calls, each a client id with the clock reading of that call, run from
  left to right on the shared map: the answers in order, and the final map.
\<close>

fun checkRateLimitCalls ::
  "api_config \<Rightarrow> (string \<times> int) list \<Rightarrow> request_counts \<Rightarrow> bool list \<times> request_counts" where
  "checkRateLimitCalls cfg [] requestCounts = ([], requestCounts)"
| "checkRateLimitCalls cfg ((clientId, now) # calls) requestCounts =
     (let (allowed, requestCounts1) = checkRateLimit cfg now clientId requestCounts;
          (rest, requestCounts2) = checkRateLimitCalls cfg calls requestCounts1
      in (allowed # rest, requestCounts2))"

text \<open>
  What holds of the map in every state reached from the empty one under a clock that
  never runs backwards, \<open>T\<close> being the latest reading: every stored sequence is
  ascending, holds no reading later than \<open>T\<close>, and is no longer than the limit.
\<close>

definition rate_inv :: "api_config \<Rightarrow> int \<Rightarrow> request_counts \<Rightarrow> bool" where
  "rate_inv cfg T requestCounts =
     (\<forall>c ts. requestCounts c = Some ts \<longrightarrow>
        sorted ts \<and> (\<forall>t \<in> set ts. t \<le> T) \<and> int (length ts) \<le> MAX_REQUESTS cfg)"

section \<open>Sanitizers (src/config.ts, sanitizeInput and sanitizeHtml)\<close>

text \<open>
  \<open>String.prototype.replace\<close> with a global pattern that matches one character at a
  time (a character class, or a single literal character) and a replacement text free
  of \<open>$\<close>: the input is scanned from left to right, a matching character is
  replaced, any other is copied. The pattern is the predicate \<open>matches\<close>.
\<close>

fun replace_g :: "string \<Rightarrow> (char \<Rightarrow> bool) \<Rightarrow> string \<Rightarrow> string" where
  "replace_g [] matches replacement = []"
| "replace_g (c # cs) matches replacement =
     (if matches c then replacement @ replace_g cs matches replacement
      else c # replace_g cs matches replacement)"

text \<open>The character class \<open>[<>'"]\<close>; the two quotes are written by their codes.\<close>

definition dangerous :: "char set" where
  "dangerous = {CHR ''<'', CHR ''>'', CHR 0x27, CHR 0x22}"

definition sanitizeInput :: "string \<Rightarrow> string" where
  "sanitizeInput input = replace_g input (\<lambda>c. c \<in> dangerous) []"

definition sanitizeHtml :: "string \<Rightarrow> string" where
  "sanitizeHtml html =
     replace_g (replace_g (replace_g (replace_g html
       (\<lambda>c. c = CHR ''<'') ''&lt;'')
       (\<lambda>c. c = CHR ''>'') ''&gt;'')
       (\<lambda>c. c = CHR 0x22) ''&quot;'')
       (\<lambda>c. c = CHR 0x27) ''&#039;''"

text \<open>
  The escaping as the specification words it, one character at a time: each of the
  four characters becomes its entity, any other character stays.
\<close>

definition escapeChar :: "char \<Rightarrow> string" where
  "escapeChar c =
     (if c = CHR ''<'' then ''&lt;''
      else if c = CHR ''>'' then ''&gt;''
      else if c = CHR 0x22 then ''&quot;''
      else if c = CHR 0x27 then ''&#039;''
      else [c])"

section \<open>Resilient fetch (fetchWithRetry of the two components)\<close>

text \<open>
  The statistics component and the report table carry the same \<open>fetchWithRetry\<close> and
  \<open>fetchWithCache\<close>, each with its own \<open>clientId\<close>, \<open>cache\<close> and
  \<open>rateLimitExceeded\<close>. Every error of the source is \<open>new Error(message)\<close> or
  what \<open>fetch\<close> and \<open>response.json()\<close> reject with; the model names them by kind.
\<close>

datatype fetch_error =
    RateLimitError
  | AbortError
  | NetworkError
  | ContentTypeError
  | HttpError nat
  | JsonError

text \<open>
  What the code reads of a \<open>Response\<close>: the \<open>Content-Type\<close> header (absent is
  \<open>None\<close>), the status, and what \<open>response.json()\<close> resolves to (\<open>None\<close> when
  the body is not JSON and the promise rejects).
\<close>

record 'j response =
  contentType :: "string option"
  status :: nat
  json :: "'j option"

text \<open>
  One call of \<open>fetch\<close> ends in one of three ways: the abort signal fired after
  \<open>TIMEOUT_MS\<close>, the transport failed, or a response arrived.
\<close>

datatype 'j net_outcome = Aborted | NetworkFailed | Responded "'j response"

text \<open>
  What the component does not control: its generated client id, the successive
  readings of \<open>Date.now()\<close> (the \<open>n\<close>-th reading of the run), and the outcome of the
  \<open>n\<close>-th call of \<open>fetch\<close> for a URL.
\<close>

record 'j environment =
  clientId :: string
  clock :: "nat \<Rightarrow> int"
  network :: "nat \<Rightarrow> string \<Rightarrow> 'j net_outcome"

text \<open>
  The mutable state: the limiter's map, the component's cache and flag, and three
  observations of the run: how many clock readings were taken, the URLs fetched in
  order, and the delays awaited in order.
\<close>

record 'j component =
  requestCounts :: request_counts
  cache :: "string \<rightharpoonup> 'j \<times> int"
  rateLimitExceeded :: bool
  reads :: nat
  fetched :: "string list"
  waited :: "int list"

text \<open>\<open>String.prototype.startsWith\<close> and \<open>String.prototype.includes\<close>.\<close>

fun startsWith :: "string \<Rightarrow> string \<Rightarrow> bool" where
  "startsWith s [] = True"
| "startsWith [] (p # ps) = False"
| "startsWith (c # cs) (p # ps) = (c = p \<and> startsWith cs ps)"

fun includes_str :: "string \<Rightarrow> string \<Rightarrow> bool" where
  "includes_str [] search = (search = [])"
| "includes_str (c # cs) search = (startsWith (c # cs) search \<or> includes_str cs search)"

text \<open>\<open>response.ok\<close>: the status is in the range 200 to 299.\<close>

definition ok :: "'j response \<Rightarrow> bool" where
  "ok response = (200 \<le> status response \<and> status response \<le> 299)"

text \<open>
  The body of the \<open>try\<close> block once \<open>fetch\<close> has settled: a rejection is the
  caught error; a response is checked for its content type, then for its status.
\<close>

definition attempt :: "'j net_outcome \<Rightarrow> fetch_error + 'j response" where
  "attempt outcome =
     (case outcome of
        Aborted \<Rightarrow> Inl AbortError
      | NetworkFailed \<Rightarrow> Inl NetworkError
      | Responded response \<Rightarrow>
          if \<not> (case contentType response of
                   None \<Rightarrow> False
                 | Some ct \<Rightarrow> includes_str ct ''application/json'')
          then Inl ContentTypeError
          else if \<not> ok response then Inl (HttpError (status response))
          else Inr response)"

text \<open>
  \<open>fetchWithRetry(url, retryCount)\<close>. The limiter is consulted before the \<open>try\<close>
  block, so its error is not caught; the recursive call stands in the \<open>catch\<close>
  block, so an error of the retry is not caught by this activation either.
\<close>

function fetchWithRetry ::
  "api_config \<Rightarrow> 'j environment \<Rightarrow> string \<Rightarrow> nat \<Rightarrow> 'j component
     \<Rightarrow> (fetch_error + 'j response) \<times> 'j component" where
  "fetchWithRetry cfg env url retryCount w =
     (let (allowed, counts) =
            checkRateLimit cfg (clock env (reads w)) (clientId env) (requestCounts w);
          w1 = w\<lparr>requestCounts := counts, reads := Suc (reads w)\<rparr>
      in if \<not> allowed then (Inl RateLimitError, w1\<lparr>rateLimitExceeded := True\<rparr>)
         else
           let w2 = w1\<lparr>fetched := fetched w1 @ [url]\<rparr> in
           case attempt (network env (length (fetched w1)) url) of
             Inr response \<Rightarrow> (Inr response, w2)
           | Inl err \<Rightarrow>
               if int retryCount < MAX_RETRIES cfg
               then fetchWithRetry cfg env url (retryCount + 1)
                      (w2\<lparr>waited := waited w2 @ [RETRY_DELAY_MS cfg]\<rparr>)
               else (Inl err, w2))"
  by pat_completeness auto
termination
  by (relation "measure (\<lambda>(cfg, env, url, retryCount, w). nat (MAX_RETRIES cfg - int retryCount))")
     auto

text \<open>
  \<open>fetchWithCache(url)\<close>. \<open>Date.now()\<close> is read once for the lookup whenever the
  cache is enabled, and once more for the entry stored after a fetch.
\<close>

definition fetchAndStore ::
  "api_config \<Rightarrow> 'j environment \<Rightarrow> string \<Rightarrow> 'j component
     \<Rightarrow> (fetch_error + 'j) \<times> 'j component" where
  "fetchAndStore cfg env url w =
     (case fetchWithRetry cfg env url 0 w of
        (Inl err, w1) \<Rightarrow> (Inl err, w1)
      | (Inr response, w1) \<Rightarrow>
          (case json response of
             None \<Rightarrow> (Inl JsonError, w1)
           | Some data \<Rightarrow>
               if ENABLED cfg
               then (Inr data,
                     w1\<lparr>cache := (cache w1)(url \<mapsto> (data, clock env (reads w1))),
                        reads := Suc (reads w1)\<rparr>)
               else (Inr data, w1)))"

definition fetchWithCache ::
  "api_config \<Rightarrow> 'j environment \<Rightarrow> string \<Rightarrow> 'j component
     \<Rightarrow> (fetch_error + 'j) \<times> 'j component" where
  "fetchWithCache cfg env url w =
     (if ENABLED cfg
      then
        let cached = cache w url;
            now = clock env (reads w);
            w0 = w\<lparr>reads := Suc (reads w)\<rparr>
        in case cached of
             Some (data, timestamp) \<Rightarrow>
               if now - timestamp < DURATION_MS cfg then (Inr data, w0)
               else fetchAndStore cfg env url w0
           | None \<Rightarrow> fetchAndStore cfg env url w0
      else fetchAndStore cfg env url w)"

text \<open>
  The limiter admits the next \<open>n\<close> consultations of this client, the first of them at
  clock reading number \<open>r\<close>, one reading apart (as the attempts of one
  \<open>fetchWithRetry\<close> call are).
\<close>

fun admits :: "api_config \<Rightarrow> 'j environment \<Rightarrow> nat \<Rightarrow> nat \<Rightarrow> request_counts \<Rightarrow> bool" where
  "admits cfg env 0 r counts = True"
| "admits cfg env (Suc n) r counts =
     (fst (checkRateLimit cfg (clock env r) (clientId env) counts)
      \<and> admits cfg env n (Suc r) (snd (checkRateLimit cfg (clock env r) (clientId env) counts)))"

text \<open>
  Names for three things the statements below speak of: whether the limiter allows the
  consultation that opens an activation in state \<open>w\<close>; the state once that
  consultation has allowed the request and \<open>fetch\<close> has been called; and the state
  in which the retry starts, the delay awaited.
\<close>

definition limiterAllows :: "api_config \<Rightarrow> 'j environment \<Rightarrow> 'j component \<Rightarrow> bool" where
  "limiterAllows cfg env w =
     fst (checkRateLimit cfg (clock env (reads w)) (clientId env) (requestCounts w))"

definition afterFetch :: "api_config \<Rightarrow> 'j environment \<Rightarrow> string \<Rightarrow> 'j component \<Rightarrow> 'j component" where
  "afterFetch cfg env url w =
     w\<lparr>requestCounts :=
         snd (checkRateLimit cfg (clock env (reads w)) (clientId env) (requestCounts w)),
       reads := Suc (reads w),
       fetched := fetched w @ [url]\<rparr>"

definition beforeRetry :: "api_config \<Rightarrow> 'j environment \<Rightarrow> string \<Rightarrow> 'j component \<Rightarrow> 'j component" where
  "beforeRetry cfg env url w =
     (afterFetch cfg env url w)\<lparr>waited := waited w @ [RETRY_DELAY_MS cfg]\<rparr>"

text \<open>
  The state in which a component is mounted (both maps empty, the flag false, nothing
  observed yet), and an environment for the examples: the clock advances by one
  second per reading, and the endpoint first times out, then fails, then answers with
  HTML, then answers 503, and from the fifth call on answers a JSON document.
\<close>

definition initial_component :: "'j component" where
  "initial_component =
     \<lparr>requestCounts = Map.empty, cache = Map.empty, rateLimitExceeded = False,
      reads = 0, fetched = [], waited = []\<rparr>"

definition flaky_network :: "nat \<Rightarrow> string \<Rightarrow> string net_outcome" where
  "flaky_network n url =
     (if n = 0 then Aborted
      else if n = 1 then NetworkFailed
      else if n = 2 then Responded \<lparr>contentType = Some ''text/html'', status = 200, json = None\<rparr>
      else if n = 3 then
        Responded \<lparr>contentType = Some ''application/json'', status = 503, json = Some ''{}''\<rparr>
      else
        Responded \<lparr>contentType = Some ''application/json; charset=utf-8'', status = 200,
                   json = Some ''[]''\<rparr>)"

definition example_env :: "string environment" where
  "example_env =
     \<lparr>clientId = ''client_1'', clock = (\<lambda>n. 1000 * int n), network = flaky_network\<rparr>"

text \<open>
  A second environment for the examples: the endpoint answers with the JSON document
  from the first call on, and the clock jumps far ahead after its fourth reading.
\<close>

definition late_env :: "string environment" where
  "late_env =
     \<lparr>clientId = ''client_1'',
      clock = (\<lambda>n. if n < 4 then 1000 * int n else 1000000 * int n),
      network = (\<lambda>n url. flaky_network (n + 4) url)\<rparr>"

section \<open>Statistics (calculateStatistics of the statistics component)\<close>

text \<open>
  A report as the component declares it. The referrer may be empty or missing in a
  report; the other fields are strings.
\<close>

record report_fields =
  useragent :: string
  clientip :: string
  violateddirective :: string
  referrer :: "string option"
  blockeduri :: string

record csp_report =
  report_id :: string
  report :: report_fields

text \<open>
  The user-agent parser is a library outside the repository, so it is a parameter
  \<open>parse\<close> of the model: from a user-agent string to the names and versions it
  recognised, each possibly undefined.
\<close>

record ua_part =
  name :: "string option"
  version :: "string option"

record ua_result =
  os :: ua_part
  browser :: ua_part

text \<open>
  A \<open>Map<string, number>\<close> keeps its entries in the order in which the keys were
  first set, and \<open>Array.from(map.entries())\<close> lists them in that order: the model is
  the list of entries. \<open>set\<close> replaces the value of a present key where it stands
  and appends an absent key.
\<close>

type_synonym count_map = "(string \<times> nat) list"

fun map_get :: "count_map \<Rightarrow> string \<Rightarrow> nat option" where
  "map_get [] key = None"
| "map_get ((k, v) # entries) key = (if k = key then Some v else map_get entries key)"

fun map_set :: "count_map \<Rightarrow> string \<Rightarrow> nat \<Rightarrow> count_map" where
  "map_set [] key val = [(key, val)]"
| "map_set ((k, v) # entries) key val =
     (if k = key then (k, val) # entries else (k, v) # map_set entries key val)"

text \<open>\<open>counts.set(key, (counts.get(key) || 0) + 1)\<close>.\<close>

definition increment :: "count_map \<Rightarrow> string \<Rightarrow> count_map" where
  "increment counts key =
     map_set counts key ((case map_get counts key of None \<Rightarrow> 0 | Some n \<Rightarrow> n) + 1)"

text \<open>
  \<open>String.prototype.trim\<close>, over the white space that a character of the model can
  be: tab, line feed, vertical tab, form feed, carriage return, space, no-break space.
\<close>

definition is_space :: "char \<Rightarrow> bool" where
  "is_space c = (c \<in> {CHR 0x09, CHR 0x0A, CHR 0x0B, CHR 0x0C, CHR 0x0D, CHR 0x20, CHR 0xA0})"

definition trim :: "string \<Rightarrow> string" where
  "trim s = rev (dropWhile is_space (rev (dropWhile is_space s)))"

text \<open>
  The template \<open>`${part.name || 'Unknown'} ${part.version || ''}`.trim()\<close>, then
  \<open>sanitizeInput\<close>: an undefined or empty name reads \<open>Unknown\<close>.
\<close>

definition describe :: "ua_part \<Rightarrow> string" where
  "describe part =
     sanitizeInput (trim
       ((case name part of None \<Rightarrow> ''Unknown'' | Some n \<Rightarrow> if n = [] then ''Unknown'' else n)
        @ '' '' @
        (case version part of None \<Rightarrow> [] | Some v \<Rightarrow> v)))"

text \<open>The seven maps that the loop over the reports fills.\<close>

record stat_maps =
  userAgentCounts :: count_map
  ipCounts :: count_map
  directiveCounts :: count_map
  referrerCounts :: count_map
  blockedURICounts :: count_map
  osCounts :: count_map
  browserCounts :: count_map

definition empty_maps :: stat_maps where
  "empty_maps =
     \<lparr>userAgentCounts = [], ipCounts = [], directiveCounts = [], referrerCounts = [],
      blockedURICounts = [], osCounts = [], browserCounts = []\<rparr>"

text \<open>The body of \<open>reports.forEach\<close>, for one report.\<close>

definition countReport :: "(string \<Rightarrow> ua_result) \<Rightarrow> stat_maps \<Rightarrow> csp_report \<Rightarrow> stat_maps" where
  "countReport parse maps r =
     (let ua = sanitizeInput (useragent (report r));
          ip = sanitizeInput (clientip (report r));
          directive = sanitizeInput (violateddirective (report r));
          referrer = (case referrer (report r) of
                        None \<Rightarrow> []
                      | Some s \<Rightarrow> if s = [] then [] else sanitizeInput s);
          uri = sanitizeInput (blockeduri (report r));
          maps = maps\<lparr>userAgentCounts := increment (userAgentCounts maps) ua\<rparr>;
          maps = maps\<lparr>ipCounts := increment (ipCounts maps) ip\<rparr>;
          maps = maps\<lparr>directiveCounts := increment (directiveCounts maps) directive\<rparr>;
          maps = (if referrer \<noteq> []
                  then maps\<lparr>referrerCounts := increment (referrerCounts maps) referrer\<rparr>
                  else maps);
          maps = maps\<lparr>blockedURICounts := increment (blockedURICounts maps) uri\<rparr>;
          result = parse ua;
          maps = maps\<lparr>osCounts := increment (osCounts maps) (describe (os result))\<rparr>
      in maps\<lparr>browserCounts := increment (browserCounts maps) (describe (browser result))\<rparr>)"

text \<open>
  \<open>Array.from(counts.entries()).map(...).sort((a, b) => b.count - a.count).slice(0, 10)\<close>.
  The sort is stable: entries of equal count keep the order of the map.
\<close>

definition top10 :: "count_map \<Rightarrow> count_map" where
  "top10 counts = take 10 (sort_key (\<lambda>(key, n). - int n) counts)"

record statistics =
  topUserAgents :: count_map
  topIPs :: count_map
  topViolatedDirectives :: count_map
  topReferrers :: count_map
  topBlockedURIs :: count_map
  topOS :: count_map
  topBrowsers :: count_map

definition calculateStatistics :: "(string \<Rightarrow> ua_result) \<Rightarrow> csp_report list \<Rightarrow> statistics" where
  "calculateStatistics parse reports =
     (let maps = foldl (countReport parse) empty_maps reports
      in \<lparr>topUserAgents = top10 (userAgentCounts maps),
          topIPs = top10 (ipCounts maps),
          topViolatedDirectives = top10 (directiveCounts maps),
          topReferrers = top10 (referrerCounts maps),
          topBlockedURIs = top10 (blockedURICounts maps),
          topOS = top10 (osCounts maps),
          topBrowsers = top10 (browserCounts maps)\<rparr>)"

text \<open>
  The specification's words, to compare the loop with: the frequency table of a list
  of keys, and the key under which each field of a report is grouped.
\<close>

definition frequencies :: "string list \<Rightarrow> count_map" where
  "frequencies keys = map (\<lambda>k. (k, count_list keys k)) (rev (remdups (rev keys)))"

definition userAgentKey :: "csp_report \<Rightarrow> string" where
  "userAgentKey r = sanitizeInput (useragent (report r))"

definition ipKey :: "csp_report \<Rightarrow> string" where
  "ipKey r = sanitizeInput (clientip (report r))"

definition directiveKey :: "csp_report \<Rightarrow> string" where
  "directiveKey r = sanitizeInput (violateddirective (report r))"

definition blockedURIKey :: "csp_report \<Rightarrow> string" where
  "blockedURIKey r = sanitizeInput (blockeduri (report r))"

definition osKey :: "(string \<Rightarrow> ua_result) \<Rightarrow> csp_report \<Rightarrow> string" where
  "osKey parse r = describe (os (parse (sanitizeInput (useragent (report r)))))"

definition browserKey :: "(string \<Rightarrow> ua_result) \<Rightarrow> csp_report \<Rightarrow> string" where
  "browserKey parse r = describe (browser (parse (sanitizeInput (useragent (report r)))))"

definition referrerKey :: "csp_report \<Rightarrow> string" where
  "referrerKey r =
     (case referrer (report r) of None \<Rightarrow> [] | Some s \<Rightarrow> if s = [] then [] else sanitizeInput s)"

definition hasReferrer :: "csp_report \<Rightarrow> bool" where
  "hasReferrer r = (referrer (report r) \<noteq> None \<and> referrer (report r) \<noteq> Some [])"

text \<open>
  For the examples: a report with a given client address and referrer, and a parser
  that recognises nothing.
\<close>

definition example_report :: "string \<Rightarrow> string option \<Rightarrow> csp_report" where
  "example_report ip ref =
     \<lparr>report_id = ''1'',
      report = \<lparr>useragent = ''Mozilla/5.0'', clientip = ip, violateddirective = ''script-src'',
                referrer = ref, blockeduri = ''http://evil.example''\<rparr>\<rparr>"

definition unknown_agent :: "string \<Rightarrow> ua_result" where
  "unknown_agent ua =
     \<lparr>os = \<lparr>name = None, version = None\<rparr>, browser = \<lparr>name = None, version = None\<rparr>\<rparr>"

section \<open>Rate limiter: proofs\<close>

lemma timestampsOf_upd_same [simp]: "timestampsOf (rc(c \<mapsto> ts)) c = ts"
  by (simp add: timestampsOf_def)

lemma timestampsOf_upd_other [simp]: "c' \<noteq> c \<Longrightarrow> timestampsOf (rc(c \<mapsto> ts)) c' = timestampsOf rc c'"
  by (simp add: timestampsOf_def)

lemma timestampsOf_empty [simp]: "timestampsOf Map.empty c = []"
  by (simp add: timestampsOf_def)

lemma checkRateLimit_unfold:
  "checkRateLimit cfg now c rc =
     (if MAX_REQUESTS cfg \<le> int (length (filter (\<lambda>t. now - t < WINDOW_MS cfg) (timestampsOf rc c)))
      then (False, rc)
      else (True, rc(c \<mapsto> filter (\<lambda>t. now - t < WINDOW_MS cfg) (timestampsOf rc c) @ [now])))"
  by (simp add: checkRateLimit_def Let_def)

lemma filter_full_length:
  "length (filter P xs) = length xs \<Longrightarrow> filter P xs = xs"
proof (induction xs)
  case Nil
  then show ?case by simp
next
  case (Cons x xs)
  have le: "length (filter P xs) \<le> length xs" by simp
  show ?case
  proof (cases "P x")
    case True
    with Cons show ?thesis by simp
  next
    case False
    with Cons.prems le show ?thesis by simp
  qed
qed

lemma rate_inv_timestampsOf:
  assumes "rate_inv cfg T rc"
  shows "sorted (timestampsOf rc c)" "\<forall>t \<in> set (timestampsOf rc c). t \<le> T"
    "rc c \<noteq> None \<Longrightarrow> int (length (timestampsOf rc c)) \<le> MAX_REQUESTS cfg"
proof -
  show "sorted (timestampsOf rc c)"
  proof (cases "rc c")
    case None
    then show ?thesis by (simp add: timestampsOf_def)
  next
    case (Some ts)
    with assms show ?thesis by (simp add: rate_inv_def timestampsOf_def)
  qed
  show "\<forall>t \<in> set (timestampsOf rc c). t \<le> T"
  proof (cases "rc c")
    case None
    then show ?thesis by (simp add: timestampsOf_def)
  next
    case (Some ts)
    with assms show ?thesis by (simp add: rate_inv_def timestampsOf_def)
  qed
  show "int (length (timestampsOf rc c)) \<le> MAX_REQUESTS cfg" if "rc c \<noteq> None"
  proof -
    from that obtain ts where "rc c = Some ts" by auto
    with assms show ?thesis by (simp add: rate_inv_def timestampsOf_def)
  qed
qed

lemma rate_inv_mono: "rate_inv cfg T rc \<Longrightarrow> T \<le> T' \<Longrightarrow> rate_inv cfg T' rc"
  unfolding rate_inv_def by fastforce

lemma rate_inv_empty: "rate_inv cfg T Map.empty"
  by (simp add: rate_inv_def)

lemma rate_inv_step:
  assumes inv: "rate_inv cfg T rc" and mono: "T \<le> now"
  shows "rate_inv cfg now (snd (checkRateLimit cfg now c rc))"
proof (cases "MAX_REQUESTS cfg \<le> int (length (filter (\<lambda>t. now - t < WINDOW_MS cfg) (timestampsOf rc c)))")
  case True
  then show ?thesis
    using rate_inv_mono [OF inv mono] by (simp add: checkRateLimit_unfold)
next
  case False
  let ?kept = "filter (\<lambda>t. now - t < WINDOW_MS cfg) (timestampsOf rc c)"
  have s: "sorted ?kept"
    using rate_inv_timestampsOf(1) [OF inv] by (simp add: sorted_wrt_filter)
  have b: "\<forall>t \<in> set ?kept. t \<le> now"
    using rate_inv_timestampsOf(2) [OF inv, of c] mono by auto
  have new: "sorted (?kept @ [now]) \<and> (\<forall>t \<in> set (?kept @ [now]). t \<le> now)
      \<and> int (length (?kept @ [now])) \<le> MAX_REQUESTS cfg"
    using s b False by (auto simp: sorted_append)
  have old: "rate_inv cfg now rc"
    by (rule rate_inv_mono [OF inv mono])
  show ?thesis
    using False new old
    by (simp add: checkRateLimit_unfold rate_inv_def)
qed

lemma rate_window_step:
  assumes inv: "rate_inv cfg T rc" and mono: "T \<le> now" and w: "0 \<le> WINDOW_MS cfg"
  shows "\<forall>t \<in> set (timestampsOf (snd (checkRateLimit cfg now c rc)) c).
           now - WINDOW_MS cfg \<le> t \<and> t \<le> now"
proof (cases "MAX_REQUESTS cfg \<le> int (length (filter (\<lambda>t. now - t < WINDOW_MS cfg) (timestampsOf rc c)))")
  case True
  let ?ts = "timestampsOf rc c"
  let ?kept = "filter (\<lambda>t. now - t < WINDOW_MS cfg) ?ts"
  have all_kept: "?kept = ?ts"
  proof (cases "rc c")
    case None
    then show ?thesis by (simp add: timestampsOf_def)
  next
    case (Some ts)
    then have "int (length ?ts) \<le> MAX_REQUESTS cfg"
      using rate_inv_timestampsOf(3) [OF inv, of c] by simp
    with True have "length ?ts \<le> length ?kept" by linarith
    moreover have "length ?kept \<le> length ?ts" by simp
    ultimately show ?thesis by (intro filter_full_length) simp
  qed
  have "\<forall>t \<in> set ?kept. now - WINDOW_MS cfg \<le> t" by auto
  with all_kept have lo: "\<forall>t \<in> set ?ts. now - WINDOW_MS cfg \<le> t" by simp
  have hi: "\<forall>t \<in> set ?ts. t \<le> now"
    using rate_inv_timestampsOf(2) [OF inv, of c] mono by auto
  from True lo hi show ?thesis by (simp add: checkRateLimit_unfold)
next
  case False
  have hi: "\<forall>t \<in> set (timestampsOf rc c). t \<le> now"
    using rate_inv_timestampsOf(2) [OF inv, of c] mono by auto
  with False w show ?thesis by (auto simp: checkRateLimit_unfold)
qed

lemma checkRateLimitCalls_append:
  "checkRateLimitCalls cfg (xs @ ys) rc =
     (let (as, rc1) = checkRateLimitCalls cfg xs rc;
          (bs, rc2) = checkRateLimitCalls cfg ys rc1
      in (as @ bs, rc2))"
  by (induction xs arbitrary: rc) (auto simp: Let_def split: prod.splits)

lemma rate_inv_calls:
  "rate_inv cfg T rc \<Longrightarrow> sorted (T # map snd calls) \<Longrightarrow>
     rate_inv cfg (last (T # map snd calls)) (snd (checkRateLimitCalls cfg calls rc))"
proof (induction calls arbitrary: T rc)
  case Nil
  then show ?case by simp
next
  case (Cons call calls)
  obtain c now where call: "call = (c, now)" by (cases call)
  from Cons.prems(2) call have mono: "T \<le> now" and rest: "sorted (now # map snd calls)"
    by auto
  have inv1: "rate_inv cfg now (snd (checkRateLimit cfg now c rc))"
    by (rule rate_inv_step [OF Cons.prems(1) mono])
  have "checkRateLimitCalls cfg (call # calls) rc =
      (fst (checkRateLimit cfg now c rc) #
         fst (checkRateLimitCalls cfg calls (snd (checkRateLimit cfg now c rc))),
       snd (checkRateLimitCalls cfg calls (snd (checkRateLimit cfg now c rc))))"
    by (simp add: call Let_def split: prod.splits)
  moreover have "last (T # map snd (call # calls)) = last (now # map snd calls)"
    by (simp add: call)
  ultimately show ?case
    using Cons.IH [OF inv1 rest] by simp
qed


lemma checkRateLimit_allowed:
  "int (length (filter (\<lambda>t. now - t < WINDOW_MS cfg) (timestampsOf rc c))) < MAX_REQUESTS cfg \<Longrightarrow>
   checkRateLimit cfg now c rc =
     (True, rc(c \<mapsto> filter (\<lambda>t. now - t < WINDOW_MS cfg) (timestampsOf rc c) @ [now]))"
  by (simp add: checkRateLimit_unfold)

lemma checkRateLimit_denied:
  "MAX_REQUESTS cfg \<le> int (length (filter (\<lambda>t. now - t < WINDOW_MS cfg) (timestampsOf rc c))) \<Longrightarrow>
   checkRateLimit cfg now c rc = (False, rc)"
  by (simp add: checkRateLimit_unfold)

lemma three_in_window_scenario:
  assumes m: "MAX_REQUESTS cfg = 3" and w: "WINDOW_MS cfg = 1000"
    and fresh: "\<forall>t \<in> set (timestampsOf rc0 c). 1000 \<le> t1 - t"
    and o12: "t1 \<le> t2" and o23: "t2 \<le> t3" and o34: "t3 \<le> t4"
    and within: "t4 - t1 < 1000" and past: "1000 \<le> t5 - t1"
  shows "fst (checkRateLimitCalls cfg [(c, t1), (c, t2), (c, t3), (c, t4), (c, t5)] rc0)
           = [True, True, True, False, True]"
proof -
  have k0: "filter (\<lambda>t. t1 - t < WINDOW_MS cfg) (timestampsOf rc0 c) = []"
    using fresh w by (auto simp: filter_empty_conv)
  have s1: "checkRateLimit cfg t1 c rc0 = (True, rc0(c \<mapsto> [t1]))"
    using checkRateLimit_allowed [of t1 cfg rc0 c] k0 m by simp
  have s2: "checkRateLimit cfg t2 c (rc0(c \<mapsto> [t1])) = (True, rc0(c \<mapsto> [t1, t2]))"
    using checkRateLimit_allowed [of t2 cfg "rc0(c \<mapsto> [t1])" c] m w o12 o23 o34 within
    by simp
  have s3: "checkRateLimit cfg t3 c (rc0(c \<mapsto> [t1, t2])) = (True, rc0(c \<mapsto> [t1, t2, t3]))"
    using checkRateLimit_allowed [of t3 cfg "rc0(c \<mapsto> [t1, t2])" c] m w o12 o23 o34 within
    by simp
  have s4: "checkRateLimit cfg t4 c (rc0(c \<mapsto> [t1, t2, t3])) = (False, rc0(c \<mapsto> [t1, t2, t3]))"
    using checkRateLimit_denied [of cfg t4 "rc0(c \<mapsto> [t1, t2, t3])" c] m w o12 o23 o34 within
    by simp
  have "length (filter (\<lambda>t. t5 - t < WINDOW_MS cfg) [t1, t2, t3]) \<le> 2"
    using w past by simp
  then have s5: "fst (checkRateLimit cfg t5 c (rc0(c \<mapsto> [t1, t2, t3])))"
    using m by (simp add: checkRateLimit_unfold)
  show ?thesis
    using s5 by (simp add: s1 s2 s3 s4 Let_def split_beta)
qed

section \<open>Rate limiter: the claims\<close>

text \<open>
  Claim C1. For every client id and every prior state of the map, \<open>checkRateLimit\<close>
  keeps the stored timestamps with \<open>now - timestamp < windowMs\<close>; when at least
  \<open>maxRequests\<close> are kept it answers false and leaves the map as it was (\<open>now\<close> is
  not recorded); otherwise it stores the kept timestamps followed by \<open>now\<close> and answers
  true. With \<open>maxRequests = 3\<close> and \<open>windowMs = 1000\<close>, a client with no timestamp
  in the window calling at \<open>t1 \<le> t2 \<le> t3 \<le> t4\<close>, all within 1000 ms, is answered
  true, true, true, false, and a later call once \<open>t1\<close> has left the window is answered
  true.
\<close>

theorem checkRateLimit_sliding_window:
  "checkRateLimit cfg now c rc =
     (if MAX_REQUESTS cfg \<le> int (length (filter (\<lambda>t. now - t < WINDOW_MS cfg) (timestampsOf rc c)))
      then (False, rc)
      else (True, rc(c \<mapsto> filter (\<lambda>t. now - t < WINDOW_MS cfg) (timestampsOf rc c) @ [now])))
   \<and> (MAX_REQUESTS cfg = 3 \<and> WINDOW_MS cfg = 1000
        \<and> (\<forall>t \<in> set (timestampsOf rc0 c). 1000 \<le> t1 - t)
        \<and> t1 \<le> t2 \<and> t2 \<le> t3 \<and> t3 \<le> t4 \<and> t4 - t1 < 1000 \<and> 1000 \<le> t5 - t1
      \<longrightarrow> fst (checkRateLimitCalls cfg [(c, t1), (c, t2), (c, t3), (c, t4), (c, t5)] rc0)
            = [True, True, True, False, True])"
  using checkRateLimit_unfold [of cfg now c rc]
    three_in_window_scenario [of cfg rc0 c t1 t2 t3 t4 t5]
  by blast

theorem checkRateLimit_sliding_window_witness:
  "checkRateLimit (DEFAULT_CONFIG\<lparr>MAX_REQUESTS := 3, WINDOW_MS := 1000\<rparr>) 1500 ''client_1''
       [''client_1'' \<mapsto> [100, 600, 700]]
     = (True, [''client_1'' \<mapsto> [600, 700, 1500]])
   \<and> checkRateLimit (DEFAULT_CONFIG\<lparr>MAX_REQUESTS := 3, WINDOW_MS := 1000\<rparr>) 1000 ''client_1''
       [''client_1'' \<mapsto> [100, 600, 700]]
     = (False, [''client_1'' \<mapsto> [100, 600, 700]])
   \<and> fst (checkRateLimitCalls (DEFAULT_CONFIG\<lparr>MAX_REQUESTS := 3, WINDOW_MS := 1000\<rparr>)
        [(''client_1'', 5000), (''client_1'', 5400), (''client_1'', 5400), (''client_1'', 5999),
         (''client_1'', 6000)]
        [''client_1'' \<mapsto> [100, 4000]])
     = [True, True, True, False, True]"
  using checkRateLimit_sliding_window
      [of "DEFAULT_CONFIG\<lparr>MAX_REQUESTS := 3, WINDOW_MS := 1000\<rparr>" 1500 "''client_1''"
          "[''client_1'' \<mapsto> [100, 600, 700]]" "[''client_1'' \<mapsto> [100, 4000]]"
          5000 5400 5400 5999 6000]
    checkRateLimit_sliding_window
      [of "DEFAULT_CONFIG\<lparr>MAX_REQUESTS := 3, WINDOW_MS := 1000\<rparr>" 1000 "''client_1''"
          "[''client_1'' \<mapsto> [100, 600, 700]]" "[''client_1'' \<mapsto> [100, 4000]]"
          5000 5400 5400 5999 6000]
  by (simp add: DEFAULT_CONFIG_def)

text \<open>
  Claim C2, as amended. In every run of calls that starts from the empty map, provided
  that the readings of \<open>Date.now()\<close> never decrease from one call to the next and
  that \<open>windowMs\<close> is not negative, after every call (whether it returns true or
  false) the sequence stored for the checked client is ascending and holds only
  timestamps within \<open>[now - windowMs, now]\<close>, \<open>now\<close> being the reading of that
  call. The two provisos are conditions on the environment and the configuration: the
  code itself neither orders the readings nor checks the window size.
\<close>

theorem rate_window_invariant:
  assumes w: "0 \<le> WINDOW_MS cfg"
    and clock: "sorted (map snd (earlier @ [(c, now)]))"
  shows "sorted (timestampsOf (snd (checkRateLimitCalls cfg (earlier @ [(c, now)]) Map.empty)) c)
       \<and> (\<forall>t \<in> set (timestampsOf (snd (checkRateLimitCalls cfg (earlier @ [(c, now)]) Map.empty)) c).
            now - WINDOW_MS cfg \<le> t \<and> t \<le> now)"
proof -
  let ?T = "hd (map snd earlier @ [now])"
  let ?rc = "snd (checkRateLimitCalls cfg earlier Map.empty)"
  from clock have sorted_all: "sorted (map snd earlier @ [now])" by simp
  have T_first: "sorted (?T # map snd earlier)"
    using sorted_all by (cases earlier) (auto simp: sorted_append)
  have T_last: "last (?T # map snd earlier) \<le> now"
    using sorted_all by (cases earlier rule: rev_cases) (auto simp: sorted_append)
  have "rate_inv cfg (last (?T # map snd earlier)) ?rc"
    by (rule rate_inv_calls [OF rate_inv_empty T_first])
  then have inv: "rate_inv cfg now ?rc"
    using T_last by (rule rate_inv_mono)
  have final: "snd (checkRateLimitCalls cfg (earlier @ [(c, now)]) Map.empty)
      = snd (checkRateLimit cfg now c ?rc)"
    by (simp add: checkRateLimitCalls_append Let_def split: prod.splits)
  have "sorted (timestampsOf (snd (checkRateLimit cfg now c ?rc)) c)"
    using rate_inv_timestampsOf(1) [OF rate_inv_step [OF inv order_refl]] .
  moreover note rate_window_step [OF inv order_refl w, of c]
  ultimately show ?thesis
    unfolding final by blast
qed

theorem rate_window_invariant_witness:
  "0 \<le> WINDOW_MS (DEFAULT_CONFIG\<lparr>MAX_REQUESTS := 2, WINDOW_MS := 1000\<rparr>)
   \<and> sorted (map snd [(''a'', 0::int), (''b'', 10), (''a'', 400), (''a'', 900)])
   \<and> checkRateLimitCalls (DEFAULT_CONFIG\<lparr>MAX_REQUESTS := 2, WINDOW_MS := 1000\<rparr>)
        [(''a'', 0), (''b'', 10), (''a'', 400), (''a'', 900)] Map.empty
      = ([True, True, True, False], [''a'' \<mapsto> [0, 400], ''b'' \<mapsto> [10]])
   \<and> sorted (timestampsOf (snd (checkRateLimitCalls
        (DEFAULT_CONFIG\<lparr>MAX_REQUESTS := 2, WINDOW_MS := 1000\<rparr>)
        [(''a'', 0), (''b'', 10), (''a'', 400), (''a'', 900)] Map.empty)) ''a'')
   \<and> list_all (\<lambda>t. 900 - 1000 \<le> t \<and> t \<le> 900)
       (timestampsOf (snd (checkRateLimitCalls
        (DEFAULT_CONFIG\<lparr>MAX_REQUESTS := 2, WINDOW_MS := 1000\<rparr>)
        [(''a'', 0), (''b'', 10), (''a'', 400), (''a'', 900)] Map.empty)) ''a'')"
  using rate_window_invariant
      [of "DEFAULT_CONFIG\<lparr>MAX_REQUESTS := 2, WINDOW_MS := 1000\<rparr>"
          "[(''a'', 0), (''b'', 10), (''a'', 400)]" "''a''" 900]
  by (simp add: DEFAULT_CONFIG_def checkRateLimit_unfold timestampsOf_def list_all_iff
        fun_upd_twist)

text \<open>
  Claim C2 as stated holds after every call, whatever the clock and the window size.
  The code keeps the readings it is given in the order of their arrival, so two cases
  break it. Under the default configuration, a call at reading 1000 followed by a call
  at reading 500 (the clock set back) leaves \<open>[1000, 500]\<close> stored: the sequence is
  not ascending and holds a timestamp later than \<open>now = 500\<close>. With a window size of
  \<open>-5\<close>, a single call at reading 1000 stores \<open>[1000]\<close>, which lies outside
  \<open>[1005, 1000]\<close>.
\<close>

theorem rate_window_counterexample:
  "timestampsOf (snd (checkRateLimitCalls DEFAULT_CONFIG [(''a'', 1000), (''a'', 500)] Map.empty))
       ''a'' = [1000, 500]
   \<and> \<not> sorted (timestampsOf
          (snd (checkRateLimitCalls DEFAULT_CONFIG [(''a'', 1000), (''a'', 500)] Map.empty)) ''a'')
   \<and> \<not> list_all (\<lambda>t. 500 - WINDOW_MS DEFAULT_CONFIG \<le> t \<and> t \<le> 500)
          (timestampsOf
            (snd (checkRateLimitCalls DEFAULT_CONFIG [(''a'', 1000), (''a'', 500)] Map.empty)) ''a'')
   \<and> timestampsOf
         (snd (checkRateLimitCalls (DEFAULT_CONFIG\<lparr>WINDOW_MS := - 5\<rparr>) [(''a'', 1000)] Map.empty))
         ''a'' = [1000]
   \<and> \<not> list_all (\<lambda>t. 1000 - WINDOW_MS (DEFAULT_CONFIG\<lparr>WINDOW_MS := - 5\<rparr>) \<le> t \<and> t \<le> 1000)
          (timestampsOf
            (snd (checkRateLimitCalls (DEFAULT_CONFIG\<lparr>WINDOW_MS := - 5\<rparr>) [(''a'', 1000)]
               Map.empty)) ''a'')"
proof -
  have setback: "timestampsOf
      (snd (checkRateLimitCalls DEFAULT_CONFIG [(''a'', 1000), (''a'', 500)] Map.empty)) ''a''
      = [1000, 500]"
    by (simp add: checkRateLimit_unfold DEFAULT_CONFIG_def)
  have negative: "timestampsOf
      (snd (checkRateLimitCalls (DEFAULT_CONFIG\<lparr>WINDOW_MS := - 5\<rparr>) [(''a'', 1000)] Map.empty))
      ''a'' = [1000]"
    by (simp add: checkRateLimit_unfold DEFAULT_CONFIG_def)
  show ?thesis
    unfolding setback negative by (simp add: DEFAULT_CONFIG_def)
qed

text \<open>
  Claim C10. A call for client \<open>c\<close> leaves the entry of every other client \<open>c'\<close> as
  it was: the only entry of the map that \<open>checkRateLimit\<close> may change is its
  argument's.
\<close>

theorem checkRateLimit_frame:
  "c' \<noteq> c \<Longrightarrow> snd (checkRateLimit cfg now c rc) c' = rc c'"
  by (simp add: checkRateLimit_unfold)

theorem checkRateLimit_frame_witness:
  "''b'' \<noteq> ''a''
   \<and> snd (checkRateLimit DEFAULT_CONFIG 50 ''a'' [''a'' \<mapsto> [10], ''b'' \<mapsto> [20, 30]]) ''b''
       = Some [20, 30]
   \<and> snd (checkRateLimit DEFAULT_CONFIG 50 ''a'' [''a'' \<mapsto> [10], ''b'' \<mapsto> [20, 30]]) ''a''
       = Some [10, 50]"
  using checkRateLimit_frame
      [of "''b''" "''a''" DEFAULT_CONFIG 50 "[''a'' \<mapsto> [10], ''b'' \<mapsto> [20, 30]]"]
  by (simp add: DEFAULT_CONFIG_def checkRateLimit_unfold timestampsOf_def)

section \<open>Sanitizers: proofs\<close>

lemma replace_g_concat: "replace_g s p r = concat (map (\<lambda>c. if p c then r else [c]) s)"
  by (induction s) auto

lemma replace_g_append: "replace_g (xs @ ys) p r = replace_g xs p r @ replace_g ys p r"
  by (simp add: replace_g_concat)

lemma sanitizeInput_filter: "sanitizeInput s = filter (\<lambda>c. c \<notin> dangerous) s"
  unfolding sanitizeInput_def by (induction s) auto

lemma sanitizeHtml_single:
  "replace_g (replace_g (replace_g (replace_g [c]
       (\<lambda>c. c = CHR ''<'') ''&lt;'')
       (\<lambda>c. c = CHR ''>'') ''&gt;'')
       (\<lambda>c. c = CHR 0x22) ''&quot;'')
       (\<lambda>c. c = CHR 0x27) ''&#039;'' = escapeChar c"
  by (simp add: escapeChar_def)

lemma sanitizeHtml_Cons: "sanitizeHtml (c # cs) = escapeChar c @ sanitizeHtml cs"
proof -
  have "sanitizeHtml ([c] @ cs) = sanitizeHtml [c] @ sanitizeHtml cs"
    unfolding sanitizeHtml_def by (simp only: replace_g_append)
  moreover have "sanitizeHtml [c] = escapeChar c"
    unfolding sanitizeHtml_def by (rule sanitizeHtml_single)
  ultimately show ?thesis by simp
qed

lemma sanitizeHtml_escape: "sanitizeHtml s = concat (map escapeChar s)"
proof (induction s)
  case Nil
  show ?case by (simp add: sanitizeHtml_def)
next
  case (Cons c cs)
  then show ?case by (simp add: sanitizeHtml_Cons)
qed

lemma escapeChar_safe: "set (escapeChar c) \<inter> dangerous = {}"
  by (simp add: escapeChar_def dangerous_def)

lemma sanitizeHtml_safe: "set (sanitizeHtml s) \<inter> dangerous = {}"
  using escapeChar_safe by (fastforce simp: sanitizeHtml_escape)

lemma escape_fixes_safe: "set s \<inter> dangerous = {} \<Longrightarrow> concat (map escapeChar s) = s"
  by (induction s) (auto simp: escapeChar_def dangerous_def)

lemma sanitizeHtml_twice: "sanitizeHtml (sanitizeHtml s) = sanitizeHtml s"
  using escape_fixes_safe [OF sanitizeHtml_safe] by (simp add: sanitizeHtml_escape)

section \<open>Sanitizers: the claims\<close>

text \<open>
  Claim C7. For every string \<open>s\<close>, \<open>sanitizeInput s\<close> is \<open>s\<close> with every
  occurrence of the characters \<open><\<close>, \<open>>\<close>, \<open>'\<close> and \<open>"\<close> removed and the other
  characters kept in their order, so it is a subsequence of \<open>s\<close>; its output holds
  none of the four characters; and it is idempotent. It is a total function: every
  input has a result.
\<close>

theorem sanitizeInput_strips:
  "sanitizeInput s = filter (\<lambda>c. c \<notin> dangerous) s
   \<and> subseq (sanitizeInput s) s
   \<and> set (sanitizeInput s) \<inter> dangerous = {}
   \<and> sanitizeInput (sanitizeInput s) = sanitizeInput s"
proof -
  have "set (filter (\<lambda>c. c \<notin> dangerous) s) \<inter> dangerous = {}" by auto
  then show ?thesis by (simp add: sanitizeInput_filter)
qed

theorem sanitizeInput_strips_witness:
  "sanitizeInput (''<a id='' @ [CHR 0x22] @ ''x'' @ [CHR 0x22] @ ''>it'' @ [CHR 0x27] @ ''s</a>'')
     = ''a id=xits/a''
   \<and> sanitizeInput ''a id=xits/a'' = ''a id=xits/a''"
proof -
  let ?s = "''<a id='' @ [CHR 0x22] @ ''x'' @ [CHR 0x22] @ ''>it'' @ [CHR 0x27] @ ''s</a>''"
  have e: "sanitizeInput ?s = ''a id=xits/a''"
    by (simp add: sanitizeInput_def dangerous_def)
  from sanitizeInput_strips [of ?s]
  have "sanitizeInput (sanitizeInput ?s) = sanitizeInput ?s" by blast
  with e show ?thesis by simp
qed

text \<open>
  Claim C8, as amended. For every string \<open>s\<close>, \<open>sanitizeHtml s\<close> replaces each
  occurrence of \<open><\<close>, \<open>>\<close>, \<open>"\<close>, \<open>'\<close> by \<open>&lt;\<close>, \<open>&gt;\<close>, \<open>&quot;\<close>,
  \<open>&#039;\<close> and leaves every other character as it is, so its output holds no literal
  \<open><\<close>, \<open>>\<close>, \<open>"\<close> or \<open>'\<close>; and, the ampersand not being escaped, it is
  idempotent: a second application changes nothing.
\<close>

theorem sanitizeHtml_escapes:
  "sanitizeHtml s = concat (map escapeChar s)
   \<and> set (sanitizeHtml s) \<inter> dangerous = {}
   \<and> sanitizeHtml (sanitizeHtml s) = sanitizeHtml s"
  using sanitizeHtml_escape [of s] sanitizeHtml_safe [of s] sanitizeHtml_twice [of s]
  by simp

theorem sanitizeHtml_escapes_witness:
  "sanitizeHtml (''<a id='' @ [CHR 0x22] @ ''x'' @ [CHR 0x22] @ ''>it'' @ [CHR 0x27] @ ''s</a>'')
     = ''&lt;a id=&quot;x&quot;&gt;it&#039;s&lt;/a&gt;''
   \<and> sanitizeHtml ''&lt;a id=&quot;x&quot;&gt;it&#039;s&lt;/a&gt;''
     = ''&lt;a id=&quot;x&quot;&gt;it&#039;s&lt;/a&gt;''"
proof -
  let ?s = "''<a id='' @ [CHR 0x22] @ ''x'' @ [CHR 0x22] @ ''>it'' @ [CHR 0x27] @ ''s</a>''"
  have e: "sanitizeHtml ?s = ''&lt;a id=&quot;x&quot;&gt;it&#039;s&lt;/a&gt;''"
    by (simp add: sanitizeHtml_def)
  from sanitizeHtml_escapes [of ?s]
  have "sanitizeHtml (sanitizeHtml ?s) = sanitizeHtml ?s" by blast
  with e show ?thesis by simp
qed

text \<open>
  Claim C8 as stated says that some string is changed by a second application. None is:
  the entities contain none of the four characters, so nothing is escaped again, as
  for \<open><b>\<close>.
\<close>

theorem sanitizeHtml_not_idempotent_counterexample:
  "sanitizeHtml ''<b>'' = ''&lt;b&gt;''
   \<and> sanitizeHtml (sanitizeHtml ''<b>'') = ''&lt;b&gt;''
   \<and> \<not> (\<exists>s. sanitizeHtml (sanitizeHtml s) \<noteq> sanitizeHtml s)"
  by (simp add: sanitizeHtml_twice) (simp add: sanitizeHtml_def)

section \<open>Resilient fetch: proofs\<close>

declare fetchWithRetry.simps [simp del]

lemma attempt_error_kinds:
  "attempt outcome = Inl err \<Longrightarrow>
     err = AbortError \<or> err = NetworkError \<or> err = ContentTypeError \<or> (\<exists>s. err = HttpError s)"
  by (auto simp: attempt_def split: net_outcome.splits if_splits)

lemma fetchWithRetry_denied:
  assumes "\<not> fst (checkRateLimit cfg (clock env (reads w)) (clientId env) (requestCounts w))"
  shows "fetchWithRetry cfg env url retryCount w =
           (Inl RateLimitError, w\<lparr>reads := Suc (reads w), rateLimitExceeded := True\<rparr>)"
proof -
  from assms have "checkRateLimit cfg (clock env (reads w)) (clientId env) (requestCounts w)
      = (False, requestCounts w)"
    by (simp add: checkRateLimit_unfold split: if_splits)
  then show ?thesis
    by (subst fetchWithRetry.simps) simp
qed

lemma fetchWithRetry_allowed:
  assumes "fst (checkRateLimit cfg (clock env (reads w)) (clientId env) (requestCounts w))"
  shows "fetchWithRetry cfg env url retryCount w =
     (let w2 = w\<lparr>requestCounts :=
                   snd (checkRateLimit cfg (clock env (reads w)) (clientId env) (requestCounts w)),
                 reads := Suc (reads w), fetched := fetched w @ [url]\<rparr>
      in case attempt (network env (length (fetched w)) url) of
           Inr response \<Rightarrow> (Inr response, w2)
         | Inl err \<Rightarrow>
             if int retryCount < MAX_RETRIES cfg
             then fetchWithRetry cfg env url (Suc retryCount)
                    (w2\<lparr>waited := waited w @ [RETRY_DELAY_MS cfg]\<rparr>)
             else (Inl err, w2))"
  using assms
  by (subst fetchWithRetry.simps) (simp add: Let_def split_beta split: sum.splits)

lemma fetchWithRetry_succeeds:
  assumes "limiterAllows cfg env w"
    and "attempt (network env (length (fetched w)) url) = Inr response"
  shows "fetchWithRetry cfg env url retryCount w = (Inr response, afterFetch cfg env url w)"
  using assms by (simp add: limiterAllows_def fetchWithRetry_allowed afterFetch_def)

lemma fetchWithRetry_fails:
  assumes "limiterAllows cfg env w"
    and "attempt (network env (length (fetched w)) url) = Inl err"
  shows "fetchWithRetry cfg env url retryCount w =
     (if int retryCount < MAX_RETRIES cfg
      then fetchWithRetry cfg env url (Suc retryCount) (beforeRetry cfg env url w)
      else (Inl err, afterFetch cfg env url w))"
  using assms
  by (simp add: limiterAllows_def fetchWithRetry_allowed afterFetch_def beforeRetry_def)

lemma fetchWithRetry_throttled:
  assumes "\<not> limiterAllows cfg env w"
  shows "fetchWithRetry cfg env url retryCount w =
           (Inl RateLimitError, w\<lparr>reads := Suc (reads w), rateLimitExceeded := True\<rparr>)"
  using assms by (simp add: limiterAllows_def fetchWithRetry_denied)

lemma fetchWithRetry_bounds:
  "length (fetched (snd (fetchWithRetry cfg env url retryCount w)))
     \<le> length (fetched w) + nat (MAX_RETRIES cfg - int retryCount) + 1
   \<and> reads (snd (fetchWithRetry cfg env url retryCount w))
     \<le> reads w + nat (MAX_RETRIES cfg - int retryCount) + 1
   \<and> length (waited (snd (fetchWithRetry cfg env url retryCount w)))
     \<le> length (waited w) + nat (MAX_RETRIES cfg - int retryCount)"
proof (induction "nat (MAX_RETRIES cfg - int retryCount)" arbitrary: retryCount w)
  case 0
  then have last: "\<not> int retryCount < MAX_RETRIES cfg" by simp
  show ?case
  proof (cases "fst (checkRateLimit cfg (clock env (reads w)) (clientId env) (requestCounts w))")
    case True
    show ?thesis
      using last by (simp add: fetchWithRetry_allowed [OF True] Let_def split: sum.splits)
  next
    case False
    show ?thesis by (simp add: fetchWithRetry_denied [OF False])
  qed
next
  case (Suc n)
  then have more: "int retryCount < MAX_RETRIES cfg"
    and n: "n = nat (MAX_RETRIES cfg - int (Suc retryCount))" by auto
  show ?case
  proof (cases "fst (checkRateLimit cfg (clock env (reads w)) (clientId env) (requestCounts w))")
    case True
    let ?w3 = "w\<lparr>requestCounts :=
                   snd (checkRateLimit cfg (clock env (reads w)) (clientId env) (requestCounts w)),
                 reads := Suc (reads w), fetched := fetched w @ [url],
                 waited := waited w @ [RETRY_DELAY_MS cfg]\<rparr>"
    show ?thesis
    proof (cases "attempt (network env (length (fetched w)) url)")
      case (Inl err)
      have "fetchWithRetry cfg env url retryCount w = fetchWithRetry cfg env url (Suc retryCount) ?w3"
        using more Inl by (simp add: fetchWithRetry_allowed [OF True] Let_def)
      moreover note Suc.hyps(1) [OF n, of ?w3]
      ultimately show ?thesis using Suc.hyps(2) n by simp
    next
      case (Inr response)
      then show ?thesis by (simp add: fetchWithRetry_allowed [OF True] Let_def)
    qed
  next
    case False
    show ?thesis by (simp add: fetchWithRetry_denied [OF False])
  qed
qed

lemma fetchWithRetry_final_attempt:
  assumes "int retryCount + int n = MAX_RETRIES cfg"
    and "admits cfg env (Suc n) (reads w) (requestCounts w)"
    and "\<forall>i < n. isl (attempt (network env (length (fetched w) + i) url))"
  shows "fst (fetchWithRetry cfg env url retryCount w)
           = attempt (network env (length (fetched w) + n) url)
       \<and> fetched (snd (fetchWithRetry cfg env url retryCount w))
           = fetched w @ replicate (Suc n) url
       \<and> waited (snd (fetchWithRetry cfg env url retryCount w))
           = waited w @ replicate n (RETRY_DELAY_MS cfg)
       \<and> reads (snd (fetchWithRetry cfg env url retryCount w)) = reads w + Suc n"
  using assms
proof (induction n arbitrary: retryCount w)
  case 0
  then have last: "\<not> int retryCount < MAX_RETRIES cfg"
    and allowed: "fst (checkRateLimit cfg (clock env (reads w)) (clientId env) (requestCounts w))"
    by auto
  show ?case
    using last by (simp add: fetchWithRetry_allowed [OF allowed] Let_def split: sum.splits)
next
  case (Suc n)
  let ?w3 = "w\<lparr>requestCounts :=
                 snd (checkRateLimit cfg (clock env (reads w)) (clientId env) (requestCounts w)),
               reads := Suc (reads w), fetched := fetched w @ [url],
               waited := waited w @ [RETRY_DELAY_MS cfg]\<rparr>"
  from Suc.prems have more: "int retryCount < MAX_RETRIES cfg"
    and allowed: "fst (checkRateLimit cfg (clock env (reads w)) (clientId env) (requestCounts w))"
    and rest: "admits cfg env (Suc n) (reads ?w3) (requestCounts ?w3)"
    and count: "int (Suc retryCount) + int n = MAX_RETRIES cfg"
    by auto
  from Suc.prems(3) have first: "isl (attempt (network env (length (fetched w)) url))"
    by (metis add.right_neutral zero_less_Suc)
  from Suc.prems(3)
  have later: "\<forall>i < n. isl (attempt (network env (length (fetched ?w3) + i) url))"
    by auto
  from first obtain err where err: "attempt (network env (length (fetched w)) url) = Inl err"
    by (cases "attempt (network env (length (fetched w)) url)") auto
  have step: "fetchWithRetry cfg env url retryCount w = fetchWithRetry cfg env url (Suc retryCount) ?w3"
    using more err by (simp add: fetchWithRetry_allowed [OF allowed] Let_def)
  show ?case
    using Suc.IH [OF count rest later]
    by (simp add: step)
qed

lemma fetched_grows:
  "prefix (fetched w) (fetched (snd (fetchWithRetry cfg env url retryCount w)))"
proof (induction "nat (MAX_RETRIES cfg - int retryCount)" arbitrary: retryCount w)
  case 0
  then have last: "\<not> int retryCount < MAX_RETRIES cfg" by simp
  show ?case
  proof (cases "limiterAllows cfg env w")
    case True
    show ?thesis
    proof (cases "attempt (network env (length (fetched w)) url)")
      case (Inl err)
      show ?thesis
        using last by (simp add: fetchWithRetry_fails [OF True Inl] afterFetch_def)
    next
      case (Inr response)
      show ?thesis by (simp add: fetchWithRetry_succeeds [OF True Inr] afterFetch_def)
    qed
  next
    case False
    show ?thesis by (simp add: fetchWithRetry_throttled [OF False])
  qed
next
  case (Suc n)
  then have more: "int retryCount < MAX_RETRIES cfg"
    and n: "n = nat (MAX_RETRIES cfg - int (Suc retryCount))" by auto
  show ?case
  proof (cases "limiterAllows cfg env w")
    case True
    show ?thesis
    proof (cases "attempt (network env (length (fetched w)) url)")
      case (Inl err)
      have "prefix (fetched (beforeRetry cfg env url w))
              (fetched (snd (fetchWithRetry cfg env url (Suc retryCount) (beforeRetry cfg env url w))))"
        by (rule Suc.hyps(1) [OF n])
      moreover have "prefix (fetched w) (fetched (beforeRetry cfg env url w))"
        by (simp add: beforeRetry_def afterFetch_def)
      ultimately show ?thesis
        using more by (simp add: fetchWithRetry_fails [OF True Inl])
    next
      case (Inr response)
      show ?thesis by (simp add: fetchWithRetry_succeeds [OF True Inr] afterFetch_def)
    qed
  next
    case False
    show ?thesis by (simp add: fetchWithRetry_throttled [OF False])
  qed
qed

lemma fetched_once_allowed:
  assumes "limiterAllows cfg env w"
  shows "prefix (fetched w @ [url]) (fetched (snd (fetchWithRetry cfg env url retryCount w)))"
proof (cases "attempt (network env (length (fetched w)) url)")
  case (Inl err)
  have "prefix (fetched (beforeRetry cfg env url w))
          (fetched (snd (fetchWithRetry cfg env url (Suc retryCount) (beforeRetry cfg env url w))))"
    by (rule fetched_grows)
  then show ?thesis
    by (simp add: fetchWithRetry_fails [OF assms Inl]) (simp add: afterFetch_def beforeRetry_def)
next
  case (Inr response)
  show ?thesis by (simp add: fetchWithRetry_succeeds [OF assms Inr] afterFetch_def)
qed

section \<open>Resilient fetch: the claims\<close>

text \<open>
  Claim C3. Whenever the limiter refuses the caller's client id, \<open>fetchWithRetry\<close>
  fails at once with the rate-limit error, at any retry count: only the clock reading
  of the consultation and the flag \<open>rateLimitExceeded\<close> change, no request is
  fetched and no retry delay is awaited.
\<close>

theorem fetchWithRetry_rate_limited:
  assumes "\<not> fst (checkRateLimit cfg (clock env (reads w)) (clientId env) (requestCounts w))"
  shows "fetchWithRetry cfg env url retryCount w =
           (Inl RateLimitError, w\<lparr>reads := Suc (reads w), rateLimitExceeded := True\<rparr>)
       \<and> fetched (snd (fetchWithRetry cfg env url retryCount w)) = fetched w
       \<and> waited (snd (fetchWithRetry cfg env url retryCount w)) = waited w
       \<and> requestCounts (snd (fetchWithRetry cfg env url retryCount w)) = requestCounts w"
  by (simp add: fetchWithRetry_denied [OF assms])

theorem fetchWithRetry_rate_limited_witness:
  "\<not> fst (checkRateLimit (DEFAULT_CONFIG\<lparr>MAX_REQUESTS := 1\<rparr>)
            (clock example_env 0) (clientId example_env) [''client_1'' \<mapsto> [-500]])
   \<and> fst (fetchWithRetry (DEFAULT_CONFIG\<lparr>MAX_REQUESTS := 1\<rparr>) example_env ''/api/v1/reports'' 0
        (initial_component\<lparr>requestCounts := [''client_1'' \<mapsto> [-500]]\<rparr>))
      = Inl RateLimitError
   \<and> fetched (snd (fetchWithRetry (DEFAULT_CONFIG\<lparr>MAX_REQUESTS := 1\<rparr>) example_env
        ''/api/v1/reports'' 0 (initial_component\<lparr>requestCounts := [''client_1'' \<mapsto> [-500]]\<rparr>)))
      = []
   \<and> waited (snd (fetchWithRetry (DEFAULT_CONFIG\<lparr>MAX_REQUESTS := 1\<rparr>) example_env
        ''/api/v1/reports'' 0 (initial_component\<lparr>requestCounts := [''client_1'' \<mapsto> [-500]]\<rparr>)))
      = []"
proof -
  let ?cfg = "DEFAULT_CONFIG\<lparr>MAX_REQUESTS := 1\<rparr>"
  let ?w = "initial_component\<lparr>requestCounts := [''client_1'' \<mapsto> [-500]]\<rparr> :: string component"
  have denied: "\<not> fst (checkRateLimit ?cfg (clock example_env (reads ?w)) (clientId example_env)
      (requestCounts ?w))"
    by (simp add: checkRateLimit_unfold DEFAULT_CONFIG_def example_env_def initial_component_def)
  from fetchWithRetry_rate_limited [OF denied, of "''/api/v1/reports''" 0] denied
  show ?thesis
    by (simp add: initial_component_def)
qed

text \<open>
  Claim C4, as amended. The three kinds of error that an attempt can end in (abort or
  network failure, content type, HTTP status) are retried while the retry count is
  below the ceiling, and the retry consults the limiter again. A rate-limit refusal is
  never retried: at the first attempt or at a retry it ends the call at once, so a
  refused retry ends the call with the rate-limit error after the one request and the
  one delay already made.
\<close>

theorem fetchWithRetry_retry_policy:
  "(limiterAllows cfg env w \<and> attempt (network env (length (fetched w)) url) = Inl err
      \<and> int retryCount < MAX_RETRIES cfg
    \<longrightarrow> (err = AbortError \<or> err = NetworkError \<or> err = ContentTypeError \<or> (\<exists>s. err = HttpError s))
        \<and> fetchWithRetry cfg env url retryCount w
            = fetchWithRetry cfg env url (Suc retryCount) (beforeRetry cfg env url w))
   \<and> (\<not> limiterAllows cfg env w
    \<longrightarrow> fetchWithRetry cfg env url retryCount w
          = (Inl RateLimitError, w\<lparr>reads := Suc (reads w), rateLimitExceeded := True\<rparr>))
   \<and> (limiterAllows cfg env w \<and> attempt (network env (length (fetched w)) url) = Inl err
      \<and> int retryCount < MAX_RETRIES cfg \<and> \<not> limiterAllows cfg env (beforeRetry cfg env url w)
    \<longrightarrow> fst (fetchWithRetry cfg env url retryCount w) = Inl RateLimitError
        \<and> fetched (snd (fetchWithRetry cfg env url retryCount w)) = fetched w @ [url]
        \<and> waited (snd (fetchWithRetry cfg env url retryCount w)) = waited w @ [RETRY_DELAY_MS cfg])"
proof (intro conjI impI)
  assume a: "limiterAllows cfg env w \<and> attempt (network env (length (fetched w)) url) = Inl err
      \<and> int retryCount < MAX_RETRIES cfg"
  then show "err = AbortError \<or> err = NetworkError \<or> err = ContentTypeError \<or> (\<exists>s. err = HttpError s)"
    using attempt_error_kinds by blast
  from a show "fetchWithRetry cfg env url retryCount w
      = fetchWithRetry cfg env url (Suc retryCount) (beforeRetry cfg env url w)"
    using fetchWithRetry_fails [of cfg env w url err retryCount] by simp
next
  assume "\<not> limiterAllows cfg env w"
  then show "fetchWithRetry cfg env url retryCount w
      = (Inl RateLimitError, w\<lparr>reads := Suc (reads w), rateLimitExceeded := True\<rparr>)"
    by (rule fetchWithRetry_throttled)
next
  assume a: "limiterAllows cfg env w \<and> attempt (network env (length (fetched w)) url) = Inl err
      \<and> int retryCount < MAX_RETRIES cfg \<and> \<not> limiterAllows cfg env (beforeRetry cfg env url w)"
  then have step: "fetchWithRetry cfg env url retryCount w
      = fetchWithRetry cfg env url (Suc retryCount) (beforeRetry cfg env url w)"
    using fetchWithRetry_fails [of cfg env w url err retryCount] by simp
  from a have refused: "fetchWithRetry cfg env url (Suc retryCount) (beforeRetry cfg env url w)
      = (Inl RateLimitError,
         (beforeRetry cfg env url w)\<lparr>reads := Suc (reads (beforeRetry cfg env url w)),
            rateLimitExceeded := True\<rparr>)"
    using fetchWithRetry_throttled by blast
  show "fst (fetchWithRetry cfg env url retryCount w) = Inl RateLimitError"
    unfolding step refused by simp
  show "fetched (snd (fetchWithRetry cfg env url retryCount w)) = fetched w @ [url]"
    unfolding step refused by (simp add: beforeRetry_def afterFetch_def)
  show "waited (snd (fetchWithRetry cfg env url retryCount w)) = waited w @ [RETRY_DELAY_MS cfg]"
    unfolding step refused by (simp add: beforeRetry_def afterFetch_def)
qed

theorem fetchWithRetry_retry_policy_witness:
  "limiterAllows (DEFAULT_CONFIG\<lparr>MAX_REQUESTS := 1\<rparr>) example_env initial_component
   \<and> attempt (network example_env (length (fetched (initial_component :: string component)))
        ''/api/v1/reports'') = Inl AbortError
   \<and> int 0 < MAX_RETRIES (DEFAULT_CONFIG\<lparr>MAX_REQUESTS := 1\<rparr>)
   \<and> \<not> limiterAllows (DEFAULT_CONFIG\<lparr>MAX_REQUESTS := 1\<rparr>) example_env
         (beforeRetry (DEFAULT_CONFIG\<lparr>MAX_REQUESTS := 1\<rparr>) example_env ''/api/v1/reports''
            initial_component)
   \<and> fst (fetchWithRetry (DEFAULT_CONFIG\<lparr>MAX_REQUESTS := 1\<rparr>) example_env ''/api/v1/reports'' 0
        initial_component) = Inl RateLimitError
   \<and> fetched (snd (fetchWithRetry (DEFAULT_CONFIG\<lparr>MAX_REQUESTS := 1\<rparr>) example_env
        ''/api/v1/reports'' 0 initial_component)) = [''/api/v1/reports'']
   \<and> waited (snd (fetchWithRetry (DEFAULT_CONFIG\<lparr>MAX_REQUESTS := 1\<rparr>) example_env
        ''/api/v1/reports'' 0 initial_component)) = [1000]
   \<and> fst (fetchWithRetry (DEFAULT_CONFIG\<lparr>MAX_REQUESTS := 1\<rparr>) example_env ''/api/v1/reports'' 1
        (beforeRetry (DEFAULT_CONFIG\<lparr>MAX_REQUESTS := 1\<rparr>) example_env ''/api/v1/reports''
           initial_component)) = Inl RateLimitError"
proof -
  let ?cfg = "DEFAULT_CONFIG\<lparr>MAX_REQUESTS := 1\<rparr>"
  let ?w = "initial_component :: string component"
  have h1: "limiterAllows ?cfg example_env ?w"
    by (simp add: limiterAllows_def checkRateLimit_unfold DEFAULT_CONFIG_def example_env_def
          initial_component_def)
  have h2: "attempt (network example_env (length (fetched ?w)) ''/api/v1/reports'') = Inl AbortError"
    by (simp add: attempt_def example_env_def flaky_network_def initial_component_def)
  have h3: "int 0 < MAX_RETRIES ?cfg"
    by (simp add: DEFAULT_CONFIG_def)
  have h4: "\<not> limiterAllows ?cfg example_env (beforeRetry ?cfg example_env ''/api/v1/reports'' ?w)"
    by (simp add: limiterAllows_def beforeRetry_def afterFetch_def checkRateLimit_unfold
          DEFAULT_CONFIG_def example_env_def initial_component_def)
  from fetchWithRetry_retry_policy [of ?cfg example_env ?w "''/api/v1/reports''" AbortError 0]
    h1 h2 h3 h4
  have "fst (fetchWithRetry ?cfg example_env ''/api/v1/reports'' 0 ?w) = Inl RateLimitError
      \<and> fetched (snd (fetchWithRetry ?cfg example_env ''/api/v1/reports'' 0 ?w))
          = fetched ?w @ [''/api/v1/reports'']
      \<and> waited (snd (fetchWithRetry ?cfg example_env ''/api/v1/reports'' 0 ?w))
          = waited ?w @ [RETRY_DELAY_MS ?cfg]"
    by blast
  moreover have "fetched ?w = []" "waited ?w = []" "RETRY_DELAY_MS ?cfg = 1000"
    by (simp_all add: initial_component_def DEFAULT_CONFIG_def)
  moreover from fetchWithRetry_retry_policy
      [of ?cfg example_env "beforeRetry ?cfg example_env ''/api/v1/reports'' ?w"
          "''/api/v1/reports''" AbortError 1] h4
  have "fst (fetchWithRetry ?cfg example_env ''/api/v1/reports'' 1
          (beforeRetry ?cfg example_env ''/api/v1/reports'' ?w)) = Inl RateLimitError"
    by simp
  ultimately show ?thesis
    using h1 h2 h3 h4 by simp
qed

text \<open>
  Claim C4 as stated has a refused first attempt retried until the retry budget is used
  up. With a limit of one request already used and three retries configured, the call
  ends after a single consultation of the limiter: no delay is awaited, nothing is
  fetched, and the limiter is not consulted a second time.
\<close>

theorem rate_limit_retry_counterexample:
  "int 0 < MAX_RETRIES (DEFAULT_CONFIG\<lparr>MAX_REQUESTS := 1\<rparr>)
   \<and> fst (fetchWithRetry (DEFAULT_CONFIG\<lparr>MAX_REQUESTS := 1\<rparr>) example_env ''/api/v1/reports'' 0
        (initial_component\<lparr>requestCounts := [''client_1'' \<mapsto> [-500]]\<rparr>))
      = Inl RateLimitError
   \<and> reads (snd (fetchWithRetry (DEFAULT_CONFIG\<lparr>MAX_REQUESTS := 1\<rparr>) example_env
        ''/api/v1/reports'' 0 (initial_component\<lparr>requestCounts := [''client_1'' \<mapsto> [-500]]\<rparr>)))
      = 1
   \<and> waited (snd (fetchWithRetry (DEFAULT_CONFIG\<lparr>MAX_REQUESTS := 1\<rparr>) example_env
        ''/api/v1/reports'' 0 (initial_component\<lparr>requestCounts := [''client_1'' \<mapsto> [-500]]\<rparr>)))
      = []
   \<and> fetched (snd (fetchWithRetry (DEFAULT_CONFIG\<lparr>MAX_REQUESTS := 1\<rparr>) example_env
        ''/api/v1/reports'' 0 (initial_component\<lparr>requestCounts := [''client_1'' \<mapsto> [-500]]\<rparr>)))
      = []"
proof -
  let ?cfg = "DEFAULT_CONFIG\<lparr>MAX_REQUESTS := 1\<rparr>"
  let ?w = "initial_component\<lparr>requestCounts := [''client_1'' \<mapsto> [-500]]\<rparr> :: string component"
  have denied: "\<not> fst (checkRateLimit ?cfg (clock example_env (reads ?w)) (clientId example_env)
      (requestCounts ?w))"
    by (simp add: checkRateLimit_unfold DEFAULT_CONFIG_def example_env_def initial_component_def)
  show ?thesis
    by (simp add: fetchWithRetry_denied [OF denied]) (simp add: initial_component_def DEFAULT_CONFIG_def)
qed

text \<open>
  Claim C5. When an attempt that the limiter allowed fails (abort, network failure,
  content type or status), the call is retried, after the delay \<open>RETRY_DELAY_MS\<close>,
  exactly when the retry count is below \<open>MAX_RETRIES\<close>, and otherwise the error is
  thrown; so a call makes at most \<open>MAX_RETRIES + 1\<close> attempts. When the limiter
  admits them all and the first \<open>MAX_RETRIES\<close> attempts fail, the call makes exactly
  \<open>MAX_RETRIES + 1\<close> requests and ends as the last one does: with its response when
  it succeeds, with its error when it fails.
\<close>

theorem fetchWithRetry_retries:
  "(limiterAllows cfg env w \<and> attempt (network env (length (fetched w)) url) = Inl err
    \<longrightarrow> fetchWithRetry cfg env url retryCount w =
         (if int retryCount < MAX_RETRIES cfg
          then fetchWithRetry cfg env url (Suc retryCount) (beforeRetry cfg env url w)
          else (Inl err, afterFetch cfg env url w))
        \<and> waited (beforeRetry cfg env url w) = waited w @ [RETRY_DELAY_MS cfg]
        \<and> waited (afterFetch cfg env url w) = waited w)
   \<and> length (fetched (snd (fetchWithRetry cfg env url retryCount w)))
       \<le> length (fetched w) + nat (MAX_RETRIES cfg - int retryCount) + 1
   \<and> reads (snd (fetchWithRetry cfg env url retryCount w))
       \<le> reads w + nat (MAX_RETRIES cfg - int retryCount) + 1
   \<and> (0 \<le> MAX_RETRIES cfg
       \<and> admits cfg env (nat (MAX_RETRIES cfg) + 1) (reads w) (requestCounts w)
       \<and> (\<forall>i < nat (MAX_RETRIES cfg). isl (attempt (network env (length (fetched w) + i) url)))
    \<longrightarrow> fst (fetchWithRetry cfg env url 0 w)
          = attempt (network env (length (fetched w) + nat (MAX_RETRIES cfg)) url)
        \<and> fetched (snd (fetchWithRetry cfg env url 0 w))
          = fetched w @ replicate (nat (MAX_RETRIES cfg) + 1) url
        \<and> waited (snd (fetchWithRetry cfg env url 0 w))
          = waited w @ replicate (nat (MAX_RETRIES cfg)) (RETRY_DELAY_MS cfg))"
proof (intro conjI impI)
  assume a: "limiterAllows cfg env w \<and> attempt (network env (length (fetched w)) url) = Inl err"
  then show "fetchWithRetry cfg env url retryCount w =
         (if int retryCount < MAX_RETRIES cfg
          then fetchWithRetry cfg env url (Suc retryCount) (beforeRetry cfg env url w)
          else (Inl err, afterFetch cfg env url w))"
    using fetchWithRetry_fails [of cfg env w url err retryCount] by blast
  show "waited (beforeRetry cfg env url w) = waited w @ [RETRY_DELAY_MS cfg]"
    by (simp add: beforeRetry_def)
  show "waited (afterFetch cfg env url w) = waited w"
    by (simp add: afterFetch_def)
next
  show "length (fetched (snd (fetchWithRetry cfg env url retryCount w)))
       \<le> length (fetched w) + nat (MAX_RETRIES cfg - int retryCount) + 1"
    using fetchWithRetry_bounds [of cfg env url retryCount w] by blast
  show "reads (snd (fetchWithRetry cfg env url retryCount w))
       \<le> reads w + nat (MAX_RETRIES cfg - int retryCount) + 1"
    using fetchWithRetry_bounds [of cfg env url retryCount w] by blast
next
  assume a: "0 \<le> MAX_RETRIES cfg
       \<and> admits cfg env (nat (MAX_RETRIES cfg) + 1) (reads w) (requestCounts w)
       \<and> (\<forall>i < nat (MAX_RETRIES cfg). isl (attempt (network env (length (fetched w) + i) url)))"
  then have count: "int 0 + int (nat (MAX_RETRIES cfg)) = MAX_RETRIES cfg" by simp
  from a have adm: "admits cfg env (Suc (nat (MAX_RETRIES cfg))) (reads w) (requestCounts w)"
    by simp
  from a have fails: "\<forall>i < nat (MAX_RETRIES cfg).
      isl (attempt (network env (length (fetched w) + i) url))" by blast
  note final = fetchWithRetry_final_attempt [OF count adm fails]
  from final show "fst (fetchWithRetry cfg env url 0 w)
      = attempt (network env (length (fetched w) + nat (MAX_RETRIES cfg)) url)" by blast
  from final show "fetched (snd (fetchWithRetry cfg env url 0 w))
      = fetched w @ replicate (nat (MAX_RETRIES cfg) + 1) url" by simp
  from final show "waited (snd (fetchWithRetry cfg env url 0 w))
      = waited w @ replicate (nat (MAX_RETRIES cfg)) (RETRY_DELAY_MS cfg)" by blast
qed

theorem fetchWithRetry_retries_witness:
  "fst (fetchWithRetry (DEFAULT_CONFIG\<lparr>MAX_RETRIES := 4\<rparr>) example_env ''/api/v1/reports'' 0
        initial_component)
     = Inr \<lparr>contentType = Some ''application/json; charset=utf-8'', status = 200,
            json = Some ''[]''\<rparr>
   \<and> fetched (snd (fetchWithRetry (DEFAULT_CONFIG\<lparr>MAX_RETRIES := 4\<rparr>) example_env
        ''/api/v1/reports'' 0 initial_component))
     = replicate 5 ''/api/v1/reports''
   \<and> waited (snd (fetchWithRetry (DEFAULT_CONFIG\<lparr>MAX_RETRIES := 4\<rparr>) example_env
        ''/api/v1/reports'' 0 initial_component))
     = replicate 4 1000
   \<and> fst (fetchWithRetry DEFAULT_CONFIG example_env ''/api/v1/reports'' 0 initial_component)
     = Inl (HttpError 503)
   \<and> fetched (snd (fetchWithRetry DEFAULT_CONFIG example_env ''/api/v1/reports'' 0
        initial_component))
     = replicate 4 ''/api/v1/reports''
   \<and> waited (snd (fetchWithRetry DEFAULT_CONFIG example_env ''/api/v1/reports'' 0
        initial_component))
     = replicate 3 1000
   \<and> fst (fetchWithRetry DEFAULT_CONFIG example_env ''/api/v1/reports'' 3
        (initial_component\<lparr>fetched := replicate 3 ''/api/v1/reports''\<rparr>))
     = Inl (HttpError 503)"
proof -
  let ?url = "''/api/v1/reports''"
  let ?w = "initial_component :: string component"
  let ?cfg4 = "DEFAULT_CONFIG\<lparr>MAX_RETRIES := 4\<rparr>"
  have w: "reads ?w = 0" "requestCounts ?w = Map.empty" "fetched ?w = []" "waited ?w = []"
    by (simp_all add: initial_component_def)
  have fail: "isl (attempt (network example_env i ?url))" if "i < 4" for i
  proof -
    from that have "i = 0 \<or> i = 1 \<or> i = 2 \<or> i = 3" by auto
    then show ?thesis
      by (auto simp: attempt_def example_env_def flaky_network_def ok_def)
  qed
  have last4: "attempt (network example_env 4 ?url)
      = Inr \<lparr>contentType = Some ''application/json; charset=utf-8'', status = 200,
             json = Some ''[]''\<rparr>"
    by (simp add: attempt_def example_env_def flaky_network_def ok_def)
  have last3: "attempt (network example_env 3 ?url) = Inl (HttpError 503)"
    by (simp add: attempt_def example_env_def flaky_network_def ok_def)
  have adm: "admits cfg example_env n r counts"
    if "MAX_REQUESTS cfg = 100" "WINDOW_MS cfg = 900000"
       "length (timestampsOf counts ''client_1'') + n \<le> 100" for cfg n r counts
    using that
  proof (induction n arbitrary: r counts)
    case 0
    show ?case by simp
  next
    case (Suc n)
    let ?kept = "filter (\<lambda>t. clock example_env r - t < WINDOW_MS cfg) (timestampsOf counts ''client_1'')"
    have "length ?kept \<le> length (timestampsOf counts ''client_1'')" by simp
    moreover have "length (timestampsOf counts ''client_1'') + Suc n \<le> 100"
      using Suc.prems(3) .
    ultimately have room: "length ?kept + Suc n \<le> 100" by linarith
    then have now: "checkRateLimit cfg (clock example_env r) ''client_1'' counts
        = (True, counts(''client_1'' \<mapsto> ?kept @ [clock example_env r]))"
      using Suc.prems(1) by (simp add: checkRateLimit_unfold)
    have "admits cfg example_env n (Suc r) (counts(''client_1'' \<mapsto> ?kept @ [clock example_env r]))"
      using room by (intro Suc.IH [OF Suc.prems(1,2)]) (simp add: timestampsOf_def)
    moreover have "clientId example_env = ''client_1''"
      by (simp add: example_env_def)
    ultimately show ?case
      by (simp add: now)
  qed
  have adm4: "admits ?cfg4 example_env (nat (MAX_RETRIES ?cfg4) + 1) (reads ?w) (requestCounts ?w)"
    by (rule adm) (simp_all add: DEFAULT_CONFIG_def w)
  have adm3: "admits DEFAULT_CONFIG example_env (nat (MAX_RETRIES DEFAULT_CONFIG) + 1) (reads ?w)
      (requestCounts ?w)"
    by (rule adm) (simp_all add: DEFAULT_CONFIG_def w)
  have m4: "MAX_RETRIES ?cfg4 = 4" "RETRY_DELAY_MS ?cfg4 = 1000"
    and m3: "MAX_RETRIES DEFAULT_CONFIG = 3" "RETRY_DELAY_MS DEFAULT_CONFIG = 1000"
    by (simp_all add: DEFAULT_CONFIG_def)
  have r4: "fst (fetchWithRetry ?cfg4 example_env ?url 0 ?w)
          = attempt (network example_env (length (fetched ?w) + nat (MAX_RETRIES ?cfg4)) ?url)
        \<and> fetched (snd (fetchWithRetry ?cfg4 example_env ?url 0 ?w))
          = fetched ?w @ replicate (nat (MAX_RETRIES ?cfg4) + 1) ?url
        \<and> waited (snd (fetchWithRetry ?cfg4 example_env ?url 0 ?w))
          = waited ?w @ replicate (nat (MAX_RETRIES ?cfg4)) (RETRY_DELAY_MS ?cfg4)"
    using fetchWithRetry_retries [of ?cfg4 example_env ?w ?url AbortError 0] adm4 fail
    by (simp add: m4 w)
  have r3: "fst (fetchWithRetry DEFAULT_CONFIG example_env ?url 0 ?w)
          = attempt (network example_env (length (fetched ?w) + nat (MAX_RETRIES DEFAULT_CONFIG)) ?url)
        \<and> fetched (snd (fetchWithRetry DEFAULT_CONFIG example_env ?url 0 ?w))
          = fetched ?w @ replicate (nat (MAX_RETRIES DEFAULT_CONFIG) + 1) ?url
        \<and> waited (snd (fetchWithRetry DEFAULT_CONFIG example_env ?url 0 ?w))
          = waited ?w @ replicate (nat (MAX_RETRIES DEFAULT_CONFIG)) (RETRY_DELAY_MS DEFAULT_CONFIG)"
    using fetchWithRetry_retries [of DEFAULT_CONFIG example_env ?w ?url AbortError 0] adm3 fail
    by (simp add: m3 w)
  have n4: "nat (MAX_RETRIES ?cfg4) = 4" "nat (MAX_RETRIES ?cfg4) + 1 = 5"
    and n3: "nat (MAX_RETRIES DEFAULT_CONFIG) = 3" "nat (MAX_RETRIES DEFAULT_CONFIG) + 1 = 4"
    by (simp_all add: DEFAULT_CONFIG_def)
  from r4 have "fst (fetchWithRetry ?cfg4 example_env ?url 0 ?w)
          = attempt (network example_env 4 ?url)
        \<and> fetched (snd (fetchWithRetry ?cfg4 example_env ?url 0 ?w)) = replicate 5 ?url
        \<and> waited (snd (fetchWithRetry ?cfg4 example_env ?url 0 ?w)) = replicate 4 1000"
    unfolding n4 w m4 by simp
  moreover from r3 have "fst (fetchWithRetry DEFAULT_CONFIG example_env ?url 0 ?w)
          = attempt (network example_env 3 ?url)
        \<and> fetched (snd (fetchWithRetry DEFAULT_CONFIG example_env ?url 0 ?w)) = replicate 4 ?url
        \<and> waited (snd (fetchWithRetry DEFAULT_CONFIG example_env ?url 0 ?w)) = replicate 3 1000"
    unfolding n3 w m3 by simp
  moreover have "fst (fetchWithRetry DEFAULT_CONFIG example_env ?url 3
      (?w\<lparr>fetched := replicate 3 ?url\<rparr>)) = Inl (HttpError 503)"
  proof -
    let ?w3 = "?w\<lparr>fetched := replicate 3 ?url\<rparr>"
    have a: "limiterAllows DEFAULT_CONFIG example_env ?w3"
      by (simp add: limiterAllows_def checkRateLimit_unfold DEFAULT_CONFIG_def example_env_def
            initial_component_def)
    have b: "attempt (network example_env (length (fetched ?w3)) ?url) = Inl (HttpError 503)"
      using last3 by simp
    from fetchWithRetry_retries [of DEFAULT_CONFIG example_env ?w3 ?url "HttpError 503" 3] a b
    have "fetchWithRetry DEFAULT_CONFIG example_env ?url 3 ?w3 =
        (if int 3 < MAX_RETRIES DEFAULT_CONFIG
         then fetchWithRetry DEFAULT_CONFIG example_env ?url (Suc 3)
                (beforeRetry DEFAULT_CONFIG example_env ?url ?w3)
         else (Inl (HttpError 503), afterFetch DEFAULT_CONFIG example_env ?url ?w3))"
      by blast
    then show ?thesis by (simp add: m3)
  qed
  ultimately show ?thesis
    unfolding last4 last3 by blast
qed

section \<open>Cache: proofs\<close>

lemma fetchWithCache_hit:
  assumes "ENABLED cfg" and "cache w url = Some (data, storedAt)"
    and "clock env (reads w) - storedAt < DURATION_MS cfg"
  shows "fetchWithCache cfg env url w = (Inr data, w\<lparr>reads := Suc (reads w)\<rparr>)"
  using assms by (simp add: fetchWithCache_def Let_def)

lemma fetchWithCache_miss:
  assumes "ENABLED cfg"
    and "cache w url = None
         \<or> (\<exists>d t. cache w url = Some (d, t) \<and> DURATION_MS cfg \<le> clock env (reads w) - t)"
  shows "fetchWithCache cfg env url w = fetchAndStore cfg env url (w\<lparr>reads := Suc (reads w)\<rparr>)"
  using assms by (auto simp: fetchWithCache_def Let_def)

lemma fetchAndStore_stores:
  assumes "ENABLED cfg" and "fetchWithRetry cfg env url 0 w = (Inr response, w1)"
    and "json response = Some data"
  shows "fetchAndStore cfg env url w =
           (Inr data, w1\<lparr>cache := (cache w1)(url \<mapsto> (data, clock env (reads w1))),
                          reads := Suc (reads w1)\<rparr>)"
  using assms by (simp add: fetchAndStore_def)

lemma fetchAndStore_fetched:
  "fetched (snd (fetchAndStore cfg env url w)) = fetched (snd (fetchWithRetry cfg env url 0 w))"
  by (simp add: fetchAndStore_def split: prod.splits sum.splits option.splits)

lemma cache_scenario:
  assumes en: "ENABLED cfg" and empty: "cache w url = None"
    and allowed: "limiterAllows cfg env (w\<lparr>reads := Suc (reads w)\<rparr>)"
    and good: "attempt (network env (length (fetched w)) url) = Inr response"
    and body: "json response = Some data"
    and fresh: "clock env (reads w + 3) - clock env (reads w + 2) < DURATION_MS cfg"
  shows "fst (fetchWithCache cfg env url w) = Inr data"
    and "fetched (snd (fetchWithCache cfg env url w)) = fetched w @ [url]"
    and "cache (snd (fetchWithCache cfg env url w)) url = Some (data, clock env (reads w + 2))"
    and "reads (snd (fetchWithCache cfg env url w)) = reads w + 3"
    and "fetchWithCache cfg env url (snd (fetchWithCache cfg env url w))
          = (Inr data, (snd (fetchWithCache cfg env url w))\<lparr>reads := reads w + 4\<rparr>)"
proof -
  let ?w0 = "w\<lparr>reads := Suc (reads w)\<rparr>"
  let ?w1 = "afterFetch cfg env url ?w0"
  let ?w2 = "?w1\<lparr>cache := (cache ?w1)(url \<mapsto> (data, clock env (reads ?w1))),
                 reads := Suc (reads ?w1)\<rparr>"
  have good0: "attempt (network env (length (fetched ?w0)) url) = Inr response"
    using good by simp
  have retry: "fetchWithRetry cfg env url 0 ?w0 = (Inr response, ?w1)"
    by (rule fetchWithRetry_succeeds [OF allowed good0])
  have first: "fetchWithCache cfg env url w = (Inr data, ?w2)"
    using fetchWithCache_miss [of cfg w url env] en empty
      fetchAndStore_stores [OF en retry body]
    by simp
  show "fst (fetchWithCache cfg env url w) = Inr data"
    by (simp add: first)
  show "fetched (snd (fetchWithCache cfg env url w)) = fetched w @ [url]"
    by (simp add: first afterFetch_def)
  show c: "cache (snd (fetchWithCache cfg env url w)) url = Some (data, clock env (reads w + 2))"
    by (simp add: first afterFetch_def)
  show r: "reads (snd (fetchWithCache cfg env url w)) = reads w + 3"
    by (simp add: first afterFetch_def)
  have "clock env (reads (snd (fetchWithCache cfg env url w))) - clock env (reads w + 2)
      < DURATION_MS cfg"
    using fresh by (simp only: r)
  from fetchWithCache_hit [OF en c this]
  show "fetchWithCache cfg env url (snd (fetchWithCache cfg env url w))
          = (Inr data, (snd (fetchWithCache cfg env url w))\<lparr>reads := reads w + 4\<rparr>)"
    by (simp add: r)
qed

lemma cache_expiry:
  assumes en: "ENABLED cfg" and entry: "cache w url = Some (data, storedAt)"
    and stale: "DURATION_MS cfg \<le> clock env (reads w) - storedAt"
    and allowed: "limiterAllows cfg env (w\<lparr>reads := Suc (reads w)\<rparr>)"
  shows "prefix (fetched w @ [url]) (fetched (snd (fetchWithCache cfg env url w)))"
proof -
  have "fetchWithCache cfg env url w = fetchAndStore cfg env url (w\<lparr>reads := Suc (reads w)\<rparr>)"
    using en entry stale by (intro fetchWithCache_miss) auto
  moreover have "prefix (fetched (w\<lparr>reads := Suc (reads w)\<rparr>) @ [url])
      (fetched (snd (fetchWithRetry cfg env url 0 (w\<lparr>reads := Suc (reads w)\<rparr>))))"
    by (rule fetched_once_allowed [OF allowed])
  ultimately show ?thesis
    by (simp add: fetchAndStore_fetched)
qed

section \<open>Cache: the claim\<close>

text \<open>
  Claim C6. With caching enabled, a \<open>fetchWithCache\<close> call that finds an entry for
  the URL younger than \<open>DURATION_MS\<close> returns the stored payload and fetches
  nothing. Otherwise it runs \<open>fetchWithRetry\<close>; when that returns a response whose
  body parses, the payload is stored under the URL with the clock reading taken then,
  replacing any earlier entry, and returned. So, starting without an entry, with the
  limiter allowing the request and the endpoint answering with a JSON document: a second
  call while the entry is younger than \<open>DURATION_MS\<close> returns the same payload and
  the two calls have fetched the URL exactly once; a third call once the entry is at
  least \<open>DURATION_MS\<close> old, the limiter allowing it, fetches the URL a second time.
\<close>

theorem fetchWithCache_expiry:
  "(ENABLED cfg \<and> cache w url = Some (data, storedAt)
      \<and> clock env (reads w) - storedAt < DURATION_MS cfg
    \<longrightarrow> fetchWithCache cfg env url w = (Inr data, w\<lparr>reads := Suc (reads w)\<rparr>)
        \<and> fetched (snd (fetchWithCache cfg env url w)) = fetched w)
   \<and> (ENABLED cfg
      \<and> (cache w url = None
          \<or> (\<exists>d t. cache w url = Some (d, t) \<and> DURATION_MS cfg \<le> clock env (reads w) - t))
      \<and> fetchWithRetry cfg env url 0 (w\<lparr>reads := Suc (reads w)\<rparr>) = (Inr response, w1)
      \<and> json response = Some payload
    \<longrightarrow> fetchWithCache cfg env url w
          = (Inr payload, w1\<lparr>cache := (cache w1)(url \<mapsto> (payload, clock env (reads w1))),
                             reads := Suc (reads w1)\<rparr>))
   \<and> (ENABLED cfg \<and> cache w url = None
      \<and> limiterAllows cfg env (w\<lparr>reads := Suc (reads w)\<rparr>)
      \<and> attempt (network env (length (fetched w)) url) = Inr response
      \<and> json response = Some payload
      \<and> clock env (reads w + 3) - clock env (reads w + 2) < DURATION_MS cfg
    \<longrightarrow> fst (fetchWithCache cfg env url w) = Inr payload
        \<and> fst (fetchWithCache cfg env url (snd (fetchWithCache cfg env url w))) = Inr payload
        \<and> fetched (snd (fetchWithCache cfg env url (snd (fetchWithCache cfg env url w))))
            = fetched w @ [url]
        \<and> (DURATION_MS cfg \<le> clock env (reads w + 4) - clock env (reads w + 2)
            \<and> limiterAllows cfg env
                ((snd (fetchWithCache cfg env url (snd (fetchWithCache cfg env url w))))
                   \<lparr>reads := reads w + 5\<rparr>)
           \<longrightarrow> prefix (fetched w @ [url, url])
                 (fetched (snd (fetchWithCache cfg env url
                    (snd (fetchWithCache cfg env url (snd (fetchWithCache cfg env url w)))))))))"
proof (intro conjI impI)
  assume a: "ENABLED cfg \<and> cache w url = Some (data, storedAt)
      \<and> clock env (reads w) - storedAt < DURATION_MS cfg"
  then have hit: "fetchWithCache cfg env url w = (Inr data, w\<lparr>reads := Suc (reads w)\<rparr>)"
    by (simp add: fetchWithCache_hit)
  then show "fetchWithCache cfg env url w = (Inr data, w\<lparr>reads := Suc (reads w)\<rparr>)" .
  from hit show "fetched (snd (fetchWithCache cfg env url w)) = fetched w" by simp
next
  assume a: "ENABLED cfg
      \<and> (cache w url = None
          \<or> (\<exists>d t. cache w url = Some (d, t) \<and> DURATION_MS cfg \<le> clock env (reads w) - t))
      \<and> fetchWithRetry cfg env url 0 (w\<lparr>reads := Suc (reads w)\<rparr>) = (Inr response, w1)
      \<and> json response = Some payload"
  then have "fetchWithCache cfg env url w = fetchAndStore cfg env url (w\<lparr>reads := Suc (reads w)\<rparr>)"
    using fetchWithCache_miss [of cfg w url env] by simp
  moreover from a have "fetchAndStore cfg env url (w\<lparr>reads := Suc (reads w)\<rparr>)
      = (Inr payload, w1\<lparr>cache := (cache w1)(url \<mapsto> (payload, clock env (reads w1))),
                         reads := Suc (reads w1)\<rparr>)"
    by (simp add: fetchAndStore_stores)
  ultimately show "fetchWithCache cfg env url w
      = (Inr payload, w1\<lparr>cache := (cache w1)(url \<mapsto> (payload, clock env (reads w1))),
                         reads := Suc (reads w1)\<rparr>)"
    by simp
next
  assume a: "ENABLED cfg \<and> cache w url = None
      \<and> limiterAllows cfg env (w\<lparr>reads := Suc (reads w)\<rparr>)
      \<and> attempt (network env (length (fetched w)) url) = Inr response
      \<and> json response = Some payload
      \<and> clock env (reads w + 3) - clock env (reads w + 2) < DURATION_MS cfg"
  then have en: "ENABLED cfg" and empty: "cache w url = None"
    and allowed: "limiterAllows cfg env (w\<lparr>reads := Suc (reads w)\<rparr>)"
    and good: "attempt (network env (length (fetched w)) url) = Inr response"
    and body: "json response = Some payload"
    and fresh: "clock env (reads w + 3) - clock env (reads w + 2) < DURATION_MS cfg"
    by blast+
  note sc = cache_scenario [OF en empty allowed good body fresh]
  let ?s1 = "snd (fetchWithCache cfg env url w)"
  let ?s2 = "snd (fetchWithCache cfg env url ?s1)"
  show "fst (fetchWithCache cfg env url w) = Inr payload" by (rule sc(1))
  show "fst (fetchWithCache cfg env url ?s1) = Inr payload" by (simp add: sc(5))
  show once: "fetched ?s2 = fetched w @ [url]" by (simp add: sc(5) sc(2))
  have c2: "cache ?s2 url = Some (payload, clock env (reads w + 2))"
    by (simp add: sc(5) sc(3))
  have r2: "reads ?s2 = reads w + 4" by (simp add: sc(5))
  show "prefix (fetched w @ [url, url]) (fetched (snd (fetchWithCache cfg env url ?s2)))"
    if b: "DURATION_MS cfg \<le> clock env (reads w + 4) - clock env (reads w + 2)
            \<and> limiterAllows cfg env (?s2\<lparr>reads := reads w + 5\<rparr>)"
  proof -
    from b have stale: "DURATION_MS cfg \<le> clock env (reads ?s2) - clock env (reads w + 2)"
      by (simp only: r2)
    have "Suc (reads ?s2) = reads w + 5" by (simp only: r2)
    with b have again: "limiterAllows cfg env (?s2\<lparr>reads := Suc (reads ?s2)\<rparr>)"
      by (simp only:)
    from cache_expiry [OF en c2 stale again] show ?thesis
      by (simp only: once) simp
  qed
qed

theorem fetchWithCache_expiry_witness:
  "fst (fetchWithCache DEFAULT_CONFIG late_env ''/api/v1/reports'' initial_component) = Inr ''[]''
   \<and> fst (fetchWithCache DEFAULT_CONFIG late_env ''/api/v1/reports''
        (snd (fetchWithCache DEFAULT_CONFIG late_env ''/api/v1/reports'' initial_component)))
       = Inr ''[]''
   \<and> fetched (snd (fetchWithCache DEFAULT_CONFIG late_env ''/api/v1/reports''
        (snd (fetchWithCache DEFAULT_CONFIG late_env ''/api/v1/reports'' initial_component))))
       = [''/api/v1/reports'']
   \<and> prefix [''/api/v1/reports'', ''/api/v1/reports'']
        (fetched (snd (fetchWithCache DEFAULT_CONFIG late_env ''/api/v1/reports''
           (snd (fetchWithCache DEFAULT_CONFIG late_env ''/api/v1/reports''
              (snd (fetchWithCache DEFAULT_CONFIG late_env ''/api/v1/reports''
                 initial_component)))))))
   \<and> fetchWithCache DEFAULT_CONFIG late_env ''/api/v1/reports''
        \<lparr>requestCounts = [''client_1'' \<mapsto> [1000]],
         cache = [''/api/v1/reports'' \<mapsto> (''[]'', 2000)],
         rateLimitExceeded = False, reads = 3, fetched = [''/api/v1/reports''], waited = []\<rparr>
       = (Inr ''[]'',
          \<lparr>requestCounts = [''client_1'' \<mapsto> [1000]],
           cache = [''/api/v1/reports'' \<mapsto> (''[]'', 2000)],
           rateLimitExceeded = False, reads = 4, fetched = [''/api/v1/reports''], waited = []\<rparr>)
   \<and> fetchWithCache DEFAULT_CONFIG late_env ''/api/v1/reports''
        \<lparr>requestCounts = [''client_1'' \<mapsto> [1000]],
         cache = [''/api/v1/reports'' \<mapsto> (''[]'', 2000)],
         rateLimitExceeded = False, reads = 4, fetched = [''/api/v1/reports''], waited = []\<rparr>
       = (Inr ''[]'',
          \<lparr>requestCounts = [''client_1'' \<mapsto> [5000000]],
           cache = [''/api/v1/reports'' \<mapsto> (''[]'', 6000000)],
           rateLimitExceeded = False, reads = 7,
           fetched = [''/api/v1/reports'', ''/api/v1/reports''], waited = []\<rparr>)"
proof -
  let ?url = "''/api/v1/reports''"
  let ?w = "initial_component :: string component"
  let ?response = "\<lparr>contentType = Some ''application/json; charset=utf-8'', status = 200,
                     json = Some ''[]''\<rparr>"
  let ?w1 = "\<lparr>requestCounts = [''client_1'' \<mapsto> [1000]], cache = [?url \<mapsto> (''[]'', 2000)],
              rateLimitExceeded = False, reads = 3, fetched = [?url], waited = []\<rparr>"
  let ?s1 = "snd (fetchWithCache DEFAULT_CONFIG late_env ?url ?w)"
  let ?s2 = "snd (fetchWithCache DEFAULT_CONFIG late_env ?url ?s1)"
  let ?s3 = "snd (fetchWithCache DEFAULT_CONFIG late_env ?url ?s2)"
  have first: "fetchWithCache DEFAULT_CONFIG late_env ?url ?w = (Inr ''[]'', ?w1)"
    by (simp add: fetchWithCache_def fetchAndStore_def fetchWithRetry.simps checkRateLimit_unfold
          DEFAULT_CONFIG_def late_env_def initial_component_def attempt_def flaky_network_def
          ok_def timestampsOf_def)
  have second: "fetchWithCache DEFAULT_CONFIG late_env ?url ?w1 = (Inr ''[]'', ?w1\<lparr>reads := 4\<rparr>)"
    by (simp add: fetchWithCache_def DEFAULT_CONFIG_def late_env_def)
  have h1: "ENABLED DEFAULT_CONFIG" by (simp add: DEFAULT_CONFIG_def)
  have h2: "cache ?w ?url = None" by (simp add: initial_component_def)
  have h3: "limiterAllows DEFAULT_CONFIG late_env (?w\<lparr>reads := Suc (reads ?w)\<rparr>)"
    by (simp add: limiterAllows_def checkRateLimit_unfold DEFAULT_CONFIG_def late_env_def
          initial_component_def)
  have h4: "attempt (network late_env (length (fetched ?w)) ?url) = Inr ?response"
    by (simp add: attempt_def late_env_def flaky_network_def ok_def initial_component_def)
  have h5: "json ?response = Some ''[]''" by simp
  have h6: "clock late_env (reads ?w + 3) - clock late_env (reads ?w + 2) < DURATION_MS DEFAULT_CONFIG"
    by (simp add: late_env_def initial_component_def DEFAULT_CONFIG_def)
  have h7: "DURATION_MS DEFAULT_CONFIG \<le> clock late_env (reads ?w + 4) - clock late_env (reads ?w + 2)"
    by (simp add: late_env_def initial_component_def DEFAULT_CONFIG_def)
  have h8: "limiterAllows DEFAULT_CONFIG late_env (?s2\<lparr>reads := reads ?w + 5\<rparr>)"
    unfolding first snd_conv second
    by (simp add: limiterAllows_def checkRateLimit_unfold DEFAULT_CONFIG_def late_env_def
          initial_component_def timestampsOf_def)
  have w0: "fetched ?w = []" by (simp add: initial_component_def)
  from fetchWithCache_expiry [of DEFAULT_CONFIG ?w ?url "''[]''" 0 late_env ?response ?w "''[]''"]
    h1 h2 h3 h4 h5 h6 h7 h8
  have "fst (fetchWithCache DEFAULT_CONFIG late_env ?url ?w) = Inr ''[]''
      \<and> fst (fetchWithCache DEFAULT_CONFIG late_env ?url ?s1) = Inr ''[]''
      \<and> fetched ?s2 = fetched ?w @ [?url]
      \<and> prefix (fetched ?w @ [?url, ?url]) (fetched ?s3)"
    by (simp only: simp_thms)
  moreover have "fetchWithCache DEFAULT_CONFIG late_env ?url ?w1 = (Inr ''[]'', ?w1\<lparr>reads := 4\<rparr>)"
  proof -
    have "ENABLED DEFAULT_CONFIG \<and> cache ?w1 ?url = Some (''[]'', 2000)
        \<and> clock late_env (reads ?w1) - 2000 < DURATION_MS DEFAULT_CONFIG"
      by (simp add: DEFAULT_CONFIG_def late_env_def)
    with fetchWithCache_expiry [of DEFAULT_CONFIG ?w1 ?url "''[]''" 2000 late_env ?response ?w1 "''[]''"]
    have "fetchWithCache DEFAULT_CONFIG late_env ?url ?w1 = (Inr ''[]'', ?w1\<lparr>reads := Suc (reads ?w1)\<rparr>)"
      by blast
    then show ?thesis by simp
  qed
  moreover have "fetchWithCache DEFAULT_CONFIG late_env ?url (?w1\<lparr>reads := 4\<rparr>)
      = (Inr ''[]'',
         \<lparr>requestCounts = [''client_1'' \<mapsto> [5000000]], cache = [?url \<mapsto> (''[]'', 6000000)],
          rateLimitExceeded = False, reads = 7, fetched = [?url, ?url], waited = []\<rparr>)"
  proof -
    let ?w2 = "?w1\<lparr>reads := 4\<rparr>"
    let ?w3 = "\<lparr>requestCounts = [''client_1'' \<mapsto> [5000000]], cache = [?url \<mapsto> (''[]'', 2000)],
                rateLimitExceeded = False, reads = 6, fetched = [?url, ?url], waited = []\<rparr>"
    have stale: "ENABLED DEFAULT_CONFIG
        \<and> (cache ?w2 ?url = None
            \<or> (\<exists>d t. cache ?w2 ?url = Some (d, t)
                      \<and> DURATION_MS DEFAULT_CONFIG \<le> clock late_env (reads ?w2) - t))"
      by (simp add: DEFAULT_CONFIG_def late_env_def)
    have again: "fetchWithRetry DEFAULT_CONFIG late_env ?url 0 (?w2\<lparr>reads := Suc (reads ?w2)\<rparr>)
        = (Inr ?response, ?w3)"
      by (simp add: fetchWithRetry.simps checkRateLimit_unfold DEFAULT_CONFIG_def late_env_def
            attempt_def flaky_network_def ok_def timestampsOf_def)
    from fetchWithCache_expiry [of DEFAULT_CONFIG ?w2 ?url "''[]''" 2000 late_env ?response ?w3 "''[]''"]
      stale again
    have "fetchWithCache DEFAULT_CONFIG late_env ?url ?w2
        = (Inr ''[]'', ?w3\<lparr>cache := (cache ?w3)(?url \<mapsto> (''[]'', clock late_env (reads ?w3))),
                          reads := Suc (reads ?w3)\<rparr>)"
      by simp
    then show ?thesis by (simp add: late_env_def)
  qed
  ultimately show ?thesis
    unfolding w0 by simp
qed

section \<open>Statistics: proofs\<close>

lemma map_get_table:
  "map_get (map (\<lambda>k. (k, f k)) ks) key = (if key \<in> set ks then Some (f key) else None)"
  by (induction ks) auto

lemma map_set_table_absent:
  "key \<notin> set ks \<Longrightarrow> map_set (map (\<lambda>k. (k, f k)) ks) key v = map (\<lambda>k. (k, f k)) ks @ [(key, v)]"
  by (induction ks) auto

lemma map_set_table_present:
  "distinct ks \<Longrightarrow> key \<in> set ks \<Longrightarrow>
     map_set (map (\<lambda>k. (k, f k)) ks) key v = map (\<lambda>k. (k, if k = key then v else f k)) ks"
proof (induction ks)
  case Nil
  then show ?case by simp
next
  case (Cons a ks)
  show ?case
  proof (cases "a = key")
    case True
    with Cons.prems have "key \<notin> set ks" by simp
    then have "map (\<lambda>k. (k, f k)) ks = map (\<lambda>k. (k, if k = key then v else f k)) ks"
      by (intro map_cong) auto
    with True show ?thesis by simp
  next
    case False
    with Cons show ?thesis by simp
  qed
qed

lemma first_seen_snoc:
  "rev (remdups (rev (ks @ [key]))) =
     (if key \<in> set ks then rev (remdups (rev ks)) else rev (remdups (rev ks)) @ [key])"
  by simp

lemma increment_frequencies: "increment (frequencies ks) key = frequencies (ks @ [key])"
proof (cases "key \<in> set ks")
  case True
  let ?order = "rev (remdups (rev ks))"
  have d: "distinct ?order" and m: "key \<in> set ?order"
    using True by simp_all
  have "increment (frequencies ks) key
      = map (\<lambda>k. (k, if k = key then count_list ks key + 1 else count_list ks k)) ?order"
    unfolding increment_def frequencies_def
    by (simp only: map_get_table m if_True option.case map_set_table_present [OF d m])
  also have "\<dots> = map (\<lambda>k. (k, count_list (ks @ [key]) k)) ?order"
    by (intro map_cong) auto
  also have "\<dots> = frequencies (ks @ [key])"
    unfolding frequencies_def first_seen_snoc using True by simp
  finally show ?thesis .
next
  case False
  let ?order = "rev (remdups (rev ks))"
  have m: "key \<notin> set ?order" using False by simp
  have "increment (frequencies ks) key = map (\<lambda>k. (k, count_list ks k)) ?order @ [(key, 1)]"
    unfolding increment_def frequencies_def
    by (simp only: map_get_table m if_False option.case map_set_table_absent [OF m]) simp
  also have "map (\<lambda>k. (k, count_list ks k)) ?order = map (\<lambda>k. (k, count_list (ks @ [key]) k)) ?order"
    using m by (intro map_cong) auto
  finally show ?thesis
    unfolding frequencies_def first_seen_snoc using False by simp
qed

lemma foldl_increment_frequencies: "foldl increment [] keys = frequencies keys"
proof (induction keys rule: rev_induct)
  case Nil
  show ?case by (simp add: frequencies_def)
next
  case (snoc key keys)
  then show ?case by (simp add: increment_frequencies)
qed

lemma countReport_fields:
  "userAgentCounts (countReport parse m r) = increment (userAgentCounts m) (userAgentKey r)"
  "ipCounts (countReport parse m r) = increment (ipCounts m) (ipKey r)"
  "directiveCounts (countReport parse m r) = increment (directiveCounts m) (directiveKey r)"
  "referrerCounts (countReport parse m r) =
     (if referrerKey r \<noteq> [] then increment (referrerCounts m) (referrerKey r) else referrerCounts m)"
  "blockedURICounts (countReport parse m r) = increment (blockedURICounts m) (blockedURIKey r)"
  "osCounts (countReport parse m r) = increment (osCounts m) (osKey parse r)"
  "browserCounts (countReport parse m r) = increment (browserCounts m) (browserKey parse r)"
  by (simp_all add: countReport_def Let_def userAgentKey_def ipKey_def directiveKey_def
        referrerKey_def blockedURIKey_def osKey_def browserKey_def)

lemma foldl_countReport_fields:
  "userAgentCounts (foldl (countReport parse) m rs)
     = foldl increment (userAgentCounts m) (map userAgentKey rs)"
  "ipCounts (foldl (countReport parse) m rs) = foldl increment (ipCounts m) (map ipKey rs)"
  "directiveCounts (foldl (countReport parse) m rs)
     = foldl increment (directiveCounts m) (map directiveKey rs)"
  "referrerCounts (foldl (countReport parse) m rs)
     = foldl increment (referrerCounts m) (filter (\<lambda>k. k \<noteq> []) (map referrerKey rs))"
  "blockedURICounts (foldl (countReport parse) m rs)
     = foldl increment (blockedURICounts m) (map blockedURIKey rs)"
  "osCounts (foldl (countReport parse) m rs) = foldl increment (osCounts m) (map (osKey parse) rs)"
  "browserCounts (foldl (countReport parse) m rs)
     = foldl increment (browserCounts m) (map (browserKey parse) rs)"
  by (induction rs arbitrary: m) (simp_all add: countReport_fields)

lemma calculateStatistics_tables:
  "calculateStatistics parse reports =
     \<lparr>topUserAgents = top10 (frequencies (map userAgentKey reports)),
      topIPs = top10 (frequencies (map ipKey reports)),
      topViolatedDirectives = top10 (frequencies (map directiveKey reports)),
      topReferrers = top10 (frequencies (filter (\<lambda>k. k \<noteq> []) (map referrerKey reports))),
      topBlockedURIs = top10 (frequencies (map blockedURIKey reports)),
      topOS = top10 (frequencies (map (osKey parse) reports)),
      topBrowsers = top10 (frequencies (map (browserKey parse) reports))\<rparr>"
  by (simp add: calculateStatistics_def Let_def foldl_countReport_fields empty_maps_def
        foldl_increment_frequencies)

lemma top10_sorted:
  "mset (sort_key (\<lambda>(key, n). - int n) counts) = mset counts
   \<and> sorted_wrt (\<lambda>a b. snd b \<le> snd a) (sort_key (\<lambda>(key, n). - int n) counts)"
proof -
  have "sorted (map (\<lambda>(key, n). - int n) (sort_key (\<lambda>(key, n). - int n) counts))"
    by (rule sorted_sort_key)
  then have "sorted_wrt (\<lambda>a b. (case a of (key, n) \<Rightarrow> - int n)
                             \<le> (case b of (key, n) \<Rightarrow> - int n))
       (sort_key (\<lambda>(key, n). - int n) counts)"
    by (simp add: sorted_map)
  then have "sorted_wrt (\<lambda>a b. snd b \<le> snd a) (sort_key (\<lambda>(key, n). - int n) counts)"
    by (rule sorted_wrt_mono_rel [rotated]) (auto split: prod.splits)
  then show ?thesis by simp
qed

lemma count_list_two: "a \<noteq> b \<Longrightarrow> count_list xs a + count_list xs b \<le> length xs"
  by (induction xs) auto

lemma frequencies_entries:
  "set (frequencies keys) = (\<lambda>k. (k, count_list keys k)) ` set keys"
  by (simp add: frequencies_def)

lemma top10_majority:
  assumes "length keys < 2 * count_list keys key"
  shows "hd (top10 (frequencies keys)) = (key, count_list keys key)"
proof -
  let ?f = "\<lambda>(k, c). - int (c::nat)"
  let ?sorted = "sort_key ?f (frequencies keys)"
  from assms have "0 < count_list keys key" by simp
  then have mem: "key \<in> set keys"
    using count_list_0_iff [of keys key] by auto
  then have entry: "(key, count_list keys key) \<in> set ?sorted"
    by (simp add: frequencies_entries)
  then obtain e es where cons: "?sorted = e # es" by (cases ?sorted) auto
  have "e \<in> set (frequencies keys)"
    using cons by (metis list.set_intros(1) set_sort)
  then obtain k where k: "e = (k, count_list keys k)"
    by (auto simp: frequencies_entries)
  have "sorted_wrt (\<lambda>a b. snd b \<le> snd a) (e # es)"
    using top10_sorted [of "frequencies keys"] cons by simp
  with entry cons have "count_list keys key \<le> count_list keys k"
    by (auto simp: k)
  with assms count_list_two [of k key keys] have "k = key"
    by (cases "k = key") auto
  with k cons show ?thesis by (simp add: top10_def)
qed

lemma count_list_map: "count_list (map f xs) k = length (filter (\<lambda>x. f x = k) xs)"
  by (induction xs) auto

lemma referrer_keys_filter:
  "filter (\<lambda>k. k \<noteq> []) (map referrerKey (filter hasReferrer reports))
     = filter (\<lambda>k. k \<noteq> []) (map referrerKey reports)"
  by (induction reports) (auto simp: referrerKey_def hasReferrer_def split: option.splits)

lemma top10_keys: "fst ` set (top10 (frequencies keys)) \<subseteq> set keys"
proof -
  have "set (top10 (frequencies keys)) \<subseteq> set (frequencies keys)"
    unfolding top10_def using set_take_subset [of 10 "sort_key (\<lambda>(key, n). - int n) (frequencies keys)"]
    by simp
  then show ?thesis
    by (auto simp: frequencies_entries)
qed

section \<open>Statistics: the claim\<close>

text \<open>
  Claim C9, as amended. For every list of reports, each of the seven tables is the
  frequency table of the reports' keys for that field (the input-sanitized value, in
  the order of first occurrence, with the number of reports that have the key), sorted
  by descending count and cut to its first ten entries. Reports with an empty or
  absent referrer do not count in the referrer table, which has no empty key. Given
  five reports of which exactly three have a client address whose sanitized value is
  \<open>9.9.9.9\<close>, the first entry of the table of addresses is \<open>9.9.9.9\<close> with count 3.
\<close>

theorem calculateStatistics_top_tables:
  "calculateStatistics parse reports =
     \<lparr>topUserAgents = top10 (frequencies (map userAgentKey reports)),
      topIPs = top10 (frequencies (map ipKey reports)),
      topViolatedDirectives = top10 (frequencies (map directiveKey reports)),
      topReferrers = top10 (frequencies (filter (\<lambda>k. k \<noteq> []) (map referrerKey reports))),
      topBlockedURIs = top10 (frequencies (map blockedURIKey reports)),
      topOS = top10 (frequencies (map (osKey parse) reports)),
      topBrowsers = top10 (frequencies (map (browserKey parse) reports))\<rparr>
   \<and> count_list (map ipKey reports) k = length (filter (\<lambda>r. sanitizeInput (clientip (report r)) = k) reports)
   \<and> top10 counts = take 10 (sort_key (\<lambda>(key, n). - int n) counts)
   \<and> mset (sort_key (\<lambda>(key, n). - int n) counts) = mset counts
   \<and> sorted_wrt (\<lambda>a b. snd b \<le> snd a) (sort_key (\<lambda>(key, n). - int n) counts)
   \<and> topReferrers (calculateStatistics parse reports)
       = topReferrers (calculateStatistics parse (filter hasReferrer reports))
   \<and> [] \<notin> fst ` set (topReferrers (calculateStatistics parse reports))
   \<and> (length reports = 5
       \<and> length (filter (\<lambda>r. sanitizeInput (clientip (report r)) = ''9.9.9.9'') reports) = 3
      \<longrightarrow> hd (topIPs (calculateStatistics parse reports)) = (''9.9.9.9'', 3))"
proof (intro conjI impI)
  show "calculateStatistics parse reports =
     \<lparr>topUserAgents = top10 (frequencies (map userAgentKey reports)),
      topIPs = top10 (frequencies (map ipKey reports)),
      topViolatedDirectives = top10 (frequencies (map directiveKey reports)),
      topReferrers = top10 (frequencies (filter (\<lambda>k. k \<noteq> []) (map referrerKey reports))),
      topBlockedURIs = top10 (frequencies (map blockedURIKey reports)),
      topOS = top10 (frequencies (map (osKey parse) reports)),
      topBrowsers = top10 (frequencies (map (browserKey parse) reports))\<rparr>"
    by (rule calculateStatistics_tables)
  show "count_list (map ipKey reports) k
      = length (filter (\<lambda>r. sanitizeInput (clientip (report r)) = k) reports)"
    by (simp add: count_list_map ipKey_def)
  show "top10 counts = take 10 (sort_key (\<lambda>(key, n). - int n) counts)"
    by (simp add: top10_def)
  show "mset (sort_key (\<lambda>(key, n). - int n) counts) = mset counts"
    using top10_sorted [of counts] by blast
  show "sorted_wrt (\<lambda>a b. snd b \<le> snd a) (sort_key (\<lambda>(key, n). - int n) counts)"
    using top10_sorted [of counts] by blast
  show "topReferrers (calculateStatistics parse reports)
       = topReferrers (calculateStatistics parse (filter hasReferrer reports))"
    by (simp add: calculateStatistics_tables referrer_keys_filter)
  show "[] \<notin> fst ` set (topReferrers (calculateStatistics parse reports))"
    using top10_keys [of "filter (\<lambda>k. k \<noteq> []) (map referrerKey reports)"]
    by (auto simp: calculateStatistics_tables)
next
  assume a: "length reports = 5
       \<and> length (filter (\<lambda>r. sanitizeInput (clientip (report r)) = ''9.9.9.9'') reports) = 3"
  then have three: "count_list (map ipKey reports) ''9.9.9.9'' = 3"
    by (simp add: count_list_map ipKey_def)
  with a have "length (map ipKey reports) < 2 * count_list (map ipKey reports) ''9.9.9.9''"
    by simp
  from top10_majority [OF this] three
  show "hd (topIPs (calculateStatistics parse reports)) = (''9.9.9.9'', 3)"
    by (simp add: calculateStatistics_tables)
qed

theorem calculateStatistics_top_tables_witness:
  "length [example_report ''9.9.9.9'' None, example_report ''1.2.3.4'' (Some ''''),
           example_report ''<9.9.9.9>'' (Some ''http://a.example''),
           example_report ''9.9.9.9'' (Some ''<>''), example_report ''1.2.3.4'' None] = 5
   \<and> length (filter (\<lambda>r. sanitizeInput (clientip (report r)) = ''9.9.9.9'')
          [example_report ''9.9.9.9'' None, example_report ''1.2.3.4'' (Some ''''),
           example_report ''<9.9.9.9>'' (Some ''http://a.example''),
           example_report ''9.9.9.9'' (Some ''<>''), example_report ''1.2.3.4'' None]) = 3
   \<and> hd (topIPs (calculateStatistics unknown_agent
          [example_report ''9.9.9.9'' None, example_report ''1.2.3.4'' (Some ''''),
           example_report ''<9.9.9.9>'' (Some ''http://a.example''),
           example_report ''9.9.9.9'' (Some ''<>''), example_report ''1.2.3.4'' None]))
       = (''9.9.9.9'', 3)
   \<and> topIPs (calculateStatistics unknown_agent
          [example_report ''9.9.9.9'' None, example_report ''1.2.3.4'' (Some ''''),
           example_report ''<9.9.9.9>'' (Some ''http://a.example''),
           example_report ''9.9.9.9'' (Some ''<>''), example_report ''1.2.3.4'' None])
       = [(''9.9.9.9'', 3), (''1.2.3.4'', 2)]
   \<and> topReferrers (calculateStatistics unknown_agent
          [example_report ''9.9.9.9'' None, example_report ''1.2.3.4'' (Some ''''),
           example_report ''<9.9.9.9>'' (Some ''http://a.example''),
           example_report ''9.9.9.9'' (Some ''<>''), example_report ''1.2.3.4'' None])
       = [(''http://a.example'', 1)]"
proof -
  let ?rs = "[example_report ''9.9.9.9'' None, example_report ''1.2.3.4'' (Some ''''),
           example_report ''<9.9.9.9>'' (Some ''http://a.example''),
           example_report ''9.9.9.9'' (Some ''<>''), example_report ''1.2.3.4'' None]"
  have five: "length ?rs = 5" by simp
  have ips: "map ipKey ?rs = [''9.9.9.9'', ''1.2.3.4'', ''9.9.9.9'', ''9.9.9.9'', ''1.2.3.4'']"
    by (simp add: ipKey_def example_report_def sanitizeInput_def dangerous_def)
  have refs: "map referrerKey ?rs = ['''', '''', ''http://a.example'', '''', '''']"
    by (simp add: referrerKey_def example_report_def sanitizeInput_def dangerous_def)
  have three: "length (filter (\<lambda>r. sanitizeInput (clientip (report r)) = ''9.9.9.9'') ?rs) = 3"
    using ips by (simp add: count_list_map [symmetric] ipKey_def [symmetric])
  note inst = calculateStatistics_top_tables [of unknown_agent ?rs "''9.9.9.9''" "[]"]
  from inst five three
  have first: "hd (topIPs (calculateStatistics unknown_agent ?rs)) = (''9.9.9.9'', 3)"
    by blast
  from inst have "topIPs (calculateStatistics unknown_agent ?rs) = top10 (frequencies (map ipKey ?rs))"
    and "topReferrers (calculateStatistics unknown_agent ?rs)
          = top10 (frequencies (filter (\<lambda>k. k \<noteq> []) (map referrerKey ?rs)))"
    by simp_all
  then have tables: "topIPs (calculateStatistics unknown_agent ?rs) = [(''9.9.9.9'', 3), (''1.2.3.4'', 2)]"
    "topReferrers (calculateStatistics unknown_agent ?rs) = [(''http://a.example'', 1)]"
    unfolding ips refs by (simp_all add: top10_def frequencies_def)
  from five three first tables show ?thesis by blast
qed

text \<open>
  Claim C9 as stated counts the raw client address. Of these five reports exactly
  three have the address \<open>9.9.9.9\<close>, and a fourth has \<open><9.9.9.9>\<close>, which is
  grouped with them once sanitized: the first entry of the table has count 4.
\<close>

theorem raw_clientip_counterexample:
  "length [example_report ''9.9.9.9'' None, example_report ''9.9.9.9'' None,
           example_report ''9.9.9.9'' None, example_report ''<9.9.9.9>'' None,
           example_report ''1.2.3.4'' None] = 5
   \<and> length (filter (\<lambda>r. clientip (report r) = ''9.9.9.9'')
          [example_report ''9.9.9.9'' None, example_report ''9.9.9.9'' None,
           example_report ''9.9.9.9'' None, example_report ''<9.9.9.9>'' None,
           example_report ''1.2.3.4'' None]) = 3
   \<and> hd (topIPs (calculateStatistics unknown_agent
          [example_report ''9.9.9.9'' None, example_report ''9.9.9.9'' None,
           example_report ''9.9.9.9'' None, example_report ''<9.9.9.9>'' None,
           example_report ''1.2.3.4'' None]))
       = (''9.9.9.9'', 4)"
proof -
  let ?rs = "[example_report ''9.9.9.9'' None, example_report ''9.9.9.9'' None,
           example_report ''9.9.9.9'' None, example_report ''<9.9.9.9>'' None,
           example_report ''1.2.3.4'' None]"
  have ips: "map ipKey ?rs = [''9.9.9.9'', ''9.9.9.9'', ''9.9.9.9'', ''9.9.9.9'', ''1.2.3.4'']"
    by (simp add: ipKey_def example_report_def sanitizeInput_def dangerous_def)
  have "topIPs (calculateStatistics unknown_agent ?rs) = top10 (frequencies (map ipKey ?rs))"
    by (simp add: calculateStatistics_tables)
  then have "topIPs (calculateStatistics unknown_agent ?rs) = [(''9.9.9.9'', 4), (''1.2.3.4'', 1)]"
    unfolding ips by (simp add: top10_def frequencies_def)
  moreover have "length (filter (\<lambda>r. clientip (report r) = ''9.9.9.9'') ?rs) = 3"
    by (simp add: example_report_def)
  ultimately show ?thesis by simp
qed

end
